theory Spec2Isabelle
  imports Complex_Main
begin

section \<open>Numbers\<close>

text \<open>
  The simulation computes with NumPy float64 values. They are modelled as real numbers,
  extended by the three non-finite results a float64 operation can give. Rounding is not
  modelled: every statement below is about the real-number reading of the arithmetic.
  What is modelled is whether a call returns a number at all. A NumPy scalar division by
  zero does not raise, it gives nan (0/0) or an infinity. And where the range of float64
  decides what a call returns, in the power and the division of the stretch transform
  and in the geometry utility, the overflow and underflow bounds are part of the model.
\<close>

datatype np_float = Num real | PosInf | NegInf | NaN

definition np_true_divide :: "real \<Rightarrow> real \<Rightarrow> np_float" where
  "np_true_divide x y =
     (if y \<noteq> 0 then Num (x / y)
      else if x = 0 then NaN
      else if 0 < x then PosInf else NegInf)"

text \<open>\<^verbatim>\<open>np.clip(v, lo, hi)\<close>: an infinity is clipped to a bound, nan stays nan.\<close>

definition np_clip :: "np_float \<Rightarrow> real \<Rightarrow> real \<Rightarrow> np_float" where
  "np_clip v lo hi =
     (case v of
        Num x \<Rightarrow> Num (min (max x lo) hi)
      | PosInf \<Rightarrow> Num hi
      | NegInf \<Rightarrow> Num lo
      | NaN \<Rightarrow> NaN)"

text \<open>Python's \<^verbatim>\<open>int(x)\<close> on a float truncates toward zero.\<close>

definition py_int :: "real \<Rightarrow> int" where
  "py_int x = (if 0 \<le> x then \<lfloor>x\<rfloor> else \<lceil>x\<rceil>)"

datatype py_error = ZeroDivisionError | ValueError | IndexError | OverflowError

text \<open>
  Why a call yields no field of real cells: it raises, or it goes on with a float that is
  an infinity, after which every cell it writes is an infinity or nan. The arrays of this
  model hold real cells, so the model follows such a call no further and says so.
\<close>

datatype stop = Raise py_error | NonFinite

text \<open>
  The range of float64. A real of magnitude \<open>2^1024 - 2^970\<close> or more rounds to an
  infinity (and Python refuses to convert such an int to a float); a real of magnitude
  \<open>2^-1075\<close> or less rounds to zero.
\<close>

definition float64_overflow :: real where
  "float64_overflow = 2 ^ 1024 - 2 ^ 970"

definition float64_underflow :: real where
  "float64_underflow = 1 / 2 ^ 1075"

text \<open>Python's conversion of an int to a float.\<close>

definition py_float :: "int \<Rightarrow> py_error + real" where
  "py_float n = (if float64_overflow \<le> \<bar>of_int n\<bar> then Inl OverflowError else Inr (of_int n))"

text \<open>
  Python's \<^verbatim>\<open>k ** p\<close> on two ints: the exact int for \<open>p \<ge> 0\<close> (with \<open>0 ** 0 = 1\<close>); for
  \<open>p < 0\<close> both are converted to floats and the float power is taken, which raises for
  \<open>k = 0\<close> and underflows to 0.0 without raising.
\<close>

datatype py_num = PyInt int | PyFloat real

definition py_pow :: "int \<Rightarrow> int \<Rightarrow> py_error + py_num" where
  "py_pow k p =
     (if 0 \<le> p then Inr (PyInt (k ^ nat p))
      else
        case py_float k of Inl e \<Rightarrow> Inl e | Inr x \<Rightarrow>
        case py_float p of Inl e \<Rightarrow> Inl e | Inr _ \<Rightarrow>
          if x = 0 then Inl ZeroDivisionError
          else if \<bar>x powi p\<bar> \<le> float64_underflow then Inr (PyFloat 0)
          else Inr (PyFloat (x powi p)))"

text \<open>
  Python's true division of two ints, \<^verbatim>\<open>a / b\<close>: it raises on a zero divisor and when
  the quotient is too large for a float.
\<close>

definition py_int_truediv :: "int \<Rightarrow> int \<Rightarrow> py_error + real" where
  "py_int_truediv a b =
     (if b = 0 then Inl ZeroDivisionError
      else if float64_overflow \<le> \<bar>of_int a / of_int b\<bar> then Inl OverflowError
      else Inr (of_int a / of_int b))"

text \<open>
  Python's division of a float by a number, \<^verbatim>\<open>x / w\<close>: an int divisor is converted
  first, a zero divisor raises, and a quotient beyond the range is an infinity, which
  does not raise.
\<close>

definition py_float_truediv :: "real \<Rightarrow> py_num \<Rightarrow> stop + real" where
  "py_float_truediv x w =
     (case (case w of PyInt n \<Rightarrow> py_float n | PyFloat y \<Rightarrow> Inr y) of
        Inl e \<Rightarrow> Inl (Raise e)
      | Inr y \<Rightarrow>
          if y = 0 then Inl (Raise ZeroDivisionError)
          else if float64_overflow \<le> \<bar>x / y\<bar> then Inl NonFinite
          else Inr (x / y))"

section \<open>Points in space and the geometry utility\<close>

type_synonym vec3 = "real \<times> real \<times> real"

fun vsub :: "vec3 \<Rightarrow> vec3 \<Rightarrow> vec3" where
  "vsub (x1, y1, z1) (x2, y2, z2) = (x1 - x2, y1 - y2, z1 - z2)"

fun vadd :: "vec3 \<Rightarrow> vec3 \<Rightarrow> vec3" where
  "vadd (x1, y1, z1) (x2, y2, z2) = (x1 + x2, y1 + y2, z1 + z2)"

fun vscale :: "real \<Rightarrow> vec3 \<Rightarrow> vec3" where
  "vscale t (x, y, z) = (t * x, t * y, t * z)"

fun np_dot :: "vec3 \<Rightarrow> vec3 \<Rightarrow> real" where
  "np_dot (x1, y1, z1) (x2, y2, z2) = x1 * x2 + y1 * y2 + z1 * z2"

definition np_linalg_norm :: "vec3 \<Rightarrow> real" where
  "np_linalg_norm v = sqrt (np_dot v v)"

text \<open>
  \<^verbatim>\<open>point_to_line_dist(p, a, b)\<close>. The projection is a NumPy scalar division with no
  guard before it; a nan projection makes \<open>closest\<close> and the norm nan. After the clip the
  projection is a number or nan, so the last case stands for nan alone. This is the
  function over the reals, as the generator uses it on end points drawn in the grid; the
  function with the range of float64 follows it.
\<close>

definition point_to_line_dist :: "vec3 \<Rightarrow> vec3 \<Rightarrow> vec3 \<Rightarrow> np_float" where
  "point_to_line_dist p a b =
     (let ab = vsub b a;
          ap = vsub p a;
          proj = np_true_divide (np_dot ap ab) (np_dot ab ab);
          proj = np_clip proj 0 1
      in case proj of
           Num t \<Rightarrow> Num (np_linalg_norm (vsub p (vadd a (vscale t ab))))
         | _ \<Rightarrow> NaN)"

text \<open>
  The same function with the range of float64 taken into account. Every arithmetic
  result is exact inside the range and an infinity beyond it; infinities and nan follow
  the IEEE rules. Zeros carry no sign: the one divisor of the function is a sum of
  squares, a positive zero when it is zero.
\<close>

definition np_overflow :: "real \<Rightarrow> np_float" where
  "np_overflow x =
     (if float64_overflow \<le> x then PosInf
      else if x \<le> - float64_overflow then NegInf
      else Num x)"

fun np_negative :: "np_float \<Rightarrow> np_float" where
  "np_negative (Num x) = Num (- x)"
| "np_negative PosInf = NegInf"
| "np_negative NegInf = PosInf"
| "np_negative NaN = NaN"

fun np_add :: "np_float \<Rightarrow> np_float \<Rightarrow> np_float" where
  "np_add NaN _ = NaN"
| "np_add _ NaN = NaN"
| "np_add (Num x) (Num y) = np_overflow (x + y)"
| "np_add PosInf NegInf = NaN"
| "np_add NegInf PosInf = NaN"
| "np_add PosInf _ = PosInf"
| "np_add _ PosInf = PosInf"
| "np_add NegInf _ = NegInf"
| "np_add _ NegInf = NegInf"

definition np_subtract :: "np_float \<Rightarrow> np_float \<Rightarrow> np_float" where
  "np_subtract u v = np_add u (np_negative v)"

fun np_multiply :: "np_float \<Rightarrow> np_float \<Rightarrow> np_float" where
  "np_multiply NaN _ = NaN"
| "np_multiply _ NaN = NaN"
| "np_multiply (Num x) (Num y) = np_overflow (x * y)"
| "np_multiply PosInf (Num y) = (if y = 0 then NaN else if 0 < y then PosInf else NegInf)"
| "np_multiply NegInf (Num y) = (if y = 0 then NaN else if 0 < y then NegInf else PosInf)"
| "np_multiply (Num x) PosInf = (if x = 0 then NaN else if 0 < x then PosInf else NegInf)"
| "np_multiply (Num x) NegInf = (if x = 0 then NaN else if 0 < x then NegInf else PosInf)"
| "np_multiply PosInf PosInf = PosInf"
| "np_multiply PosInf NegInf = NegInf"
| "np_multiply NegInf PosInf = NegInf"
| "np_multiply NegInf NegInf = PosInf"

fun np_divide :: "np_float \<Rightarrow> np_float \<Rightarrow> np_float" where
  "np_divide NaN _ = NaN"
| "np_divide _ NaN = NaN"
| "np_divide (Num x) (Num y) =
     (if y \<noteq> 0 then np_overflow (x / y)
      else if x = 0 then NaN
      else if 0 < x then PosInf else NegInf)"
| "np_divide (Num x) PosInf = Num 0"
| "np_divide (Num x) NegInf = Num 0"
| "np_divide PosInf (Num y) = (if 0 \<le> y then PosInf else NegInf)"
| "np_divide NegInf (Num y) = (if 0 \<le> y then NegInf else PosInf)"
| "np_divide PosInf PosInf = NaN"
| "np_divide PosInf NegInf = NaN"
| "np_divide NegInf PosInf = NaN"
| "np_divide NegInf NegInf = NaN"

fun np_sqrt :: "np_float \<Rightarrow> np_float" where
  "np_sqrt (Num x) = (if 0 \<le> x then Num (sqrt x) else NaN)"
| "np_sqrt PosInf = PosInf"
| "np_sqrt NegInf = NaN"
| "np_sqrt NaN = NaN"

text \<open>A product of magnitude \<open>2^-1075\<close> or less is zero in float64.\<close>

fun np_underflow :: "np_float \<Rightarrow> np_float" where
  "np_underflow (Num x) = (if \<bar>x\<bar> \<le> float64_underflow then Num 0 else Num x)"
| "np_underflow PosInf = PosInf"
| "np_underflow NegInf = NegInf"
| "np_underflow NaN = NaN"

type_synonym fvec3 = "np_float \<times> np_float \<times> np_float"

text \<open>The arrays the function receives hold finite floats.\<close>

fun np_array :: "vec3 \<Rightarrow> fvec3" where
  "np_array (x, y, z) = (Num x, Num y, Num z)"

fun np_subtract3 :: "fvec3 \<Rightarrow> fvec3 \<Rightarrow> fvec3" where
  "np_subtract3 (x1, y1, z1) (x2, y2, z2) =
     (np_subtract x1 x2, np_subtract y1 y2, np_subtract z1 z2)"

fun np_add3 :: "fvec3 \<Rightarrow> fvec3 \<Rightarrow> fvec3" where
  "np_add3 (x1, y1, z1) (x2, y2, z2) = (np_add x1 x2, np_add y1 y2, np_add z1 z2)"

fun np_scale3 :: "np_float \<Rightarrow> fvec3 \<Rightarrow> fvec3" where
  "np_scale3 t (x, y, z) = (np_multiply t x, np_multiply t y, np_multiply t z)"

text \<open>
  \<^verbatim>\<open>np.dot\<close> in the projection: where a zero dot product decides between a number and
  nan, the underflow of each product is modelled.
\<close>

fun np_dot_f64 :: "fvec3 \<Rightarrow> fvec3 \<Rightarrow> np_float" where
  "np_dot_f64 (x1, y1, z1) (x2, y2, z2) =
     np_add (np_add (np_underflow (np_multiply x1 x2)) (np_underflow (np_multiply y1 y2)))
       (np_underflow (np_multiply z1 z2))"

text \<open>
  \<^verbatim>\<open>np.linalg.norm\<close>, the square root of the sum of squares. An underflowing square
  changes the norm by less than \<open>2^-537\<close> and never its being a number, so it is left to
  rounding; a square beyond the range makes the norm an infinity.
\<close>

fun np_linalg_norm_f64 :: "fvec3 \<Rightarrow> np_float" where
  "np_linalg_norm_f64 (x, y, z) =
     np_sqrt (np_add (np_add (np_multiply x x) (np_multiply y y)) (np_multiply z z))"

definition point_to_line_dist_f64 :: "vec3 \<Rightarrow> vec3 \<Rightarrow> vec3 \<Rightarrow> np_float" where
  "point_to_line_dist_f64 p a b =
     (let ab = np_subtract3 (np_array b) (np_array a);
          ap = np_subtract3 (np_array p) (np_array a);
          proj = np_divide (np_dot_f64 ap ab) (np_dot_f64 ab ab);
          proj = np_clip proj 0 1;
          closest = np_add3 (np_array a) (np_scale3 proj ab)
      in np_linalg_norm_f64 (np_subtract3 (np_array p) closest))"

section \<open>Arrays, the heap and the random source\<close>

text \<open>
  A ScalarField is a cubic float array: its side and its cells. Arrays are objects, and
  the transforms receive references to them, so arrays live in a heap (a list, a
  reference being a position in it, and \<^verbatim>\<open>np.zeros\<close> appending a new object). The heap
  holds the arrays a name of the program is bound to. The temporary arrays of an
  expression (the array of normal draws and its scaled product) are values and are not
  entered in it, so the length of the heap does not count every allocation.
\<close>

type_synonym index3 = "nat \<times> nat \<times> nat"

record ndarray =
  side :: nat
  cells :: "index3 \<Rightarrow> real"

type_synonym ref = nat

type_synonym heap = "ndarray list"

definition zeros :: "nat \<Rightarrow> ndarray" where
  "zeros n = \<lparr>side = n, cells = (\<lambda>_. 0)\<rparr>"

definition np_zeros :: "nat \<Rightarrow> heap \<Rightarrow> ref \<times> heap" where
  "np_zeros n h = (length h, h @ [zeros n])"

definition np_sum :: "ndarray \<Rightarrow> real" where
  "np_sum a = (\<Sum>i<side a. \<Sum>j<side a. \<Sum>l<side a. cells a (i, j, l))"

text \<open>
  Reading \<^verbatim>\<open>a[i, j, l]\<close> at computed integer indices: NumPy counts a negative index from
  the end and raises IndexError outside the shape.
\<close>

definition np_index :: "nat \<Rightarrow> int \<Rightarrow> py_error + nat" where
  "np_index n i =
     (if 0 \<le> i \<and> i < int n then Inr (nat i)
      else if - int n \<le> i \<and> i < 0 then Inr (nat (i + int n))
      else Inl IndexError)"

definition getitem :: "ndarray \<Rightarrow> int \<Rightarrow> int \<Rightarrow> int \<Rightarrow> py_error + real" where
  "getitem a i j l =
     (case np_index (side a) i of Inl e \<Rightarrow> Inl e | Inr i' \<Rightarrow>
      case np_index (side a) j of Inl e \<Rightarrow> Inl e | Inr j' \<Rightarrow>
      case np_index (side a) l of Inl e \<Rightarrow> Inl e | Inr l' \<Rightarrow>
        Inr (cells a (i', j', l')))"

text \<open>
  Writing \<^verbatim>\<open>a[i, j, l] = v\<close> and \<^verbatim>\<open>a[i, j, l] += v\<close>. Both writes of the source take
  their indices from \<^verbatim>\<open>range\<close> loops bounded by the side of the array written.
\<close>

definition setitem :: "ndarray \<Rightarrow> index3 \<Rightarrow> real \<Rightarrow> ndarray" where
  "setitem a idx v = a\<lparr>cells := (cells a)(idx := v)\<rparr>"

definition additem :: "ndarray \<Rightarrow> index3 \<Rightarrow> real \<Rightarrow> ndarray" where
  "additem a idx v = a\<lparr>cells := (cells a)(idx := cells a idx + v)\<rparr>"

text \<open>The in-place operators \<^verbatim>\<open>grid *= amp\<close> and \<^verbatim>\<open>grid += inj\<close> on the object at a reference.\<close>

definition imul :: "ref \<Rightarrow> real \<Rightarrow> heap \<Rightarrow> heap" where
  "imul r c h = h[r := (h ! r)\<lparr>cells := (\<lambda>idx. cells (h ! r) idx * c)\<rparr>]"

definition iadd :: "ref \<Rightarrow> ndarray \<Rightarrow> heap \<Rightarrow> heap" where
  "iadd r b h = h[r := (h ! r)\<lparr>cells := (\<lambda>idx. cells (h ! r) idx + cells b idx)\<rparr>]"

text \<open>A scalar times an array: a new array value.\<close>

definition scalar_mul :: "real \<Rightarrow> ndarray \<Rightarrow> ndarray" where
  "scalar_mul c a = a\<lparr>cells := (\<lambda>idx. c * cells a idx)\<rparr>"

text \<open>
  The process-wide random source is the sequence of values its calls return: the doubles
  in \<open>[0, 1)\<close> behind \<^verbatim>\<open>uniform\<close> and \<^verbatim>\<open>rand\<close>, and the arrays of standard normal draws
  returned by \<^verbatim>\<open>normal(size=shape)\<close>. A call takes the head of its sequence. What the
  draws are (their distribution, their independence) is outside the model.
\<close>

record rng =
  uniform_draws :: "nat \<Rightarrow> real"
  normal_draws :: "nat \<Rightarrow> index3 \<Rightarrow> real"

definition np_random_rand :: "rng \<Rightarrow> real \<times> rng" where
  "np_random_rand g =
     (uniform_draws g 0, g\<lparr>uniform_draws := (\<lambda>n. uniform_draws g (Suc n))\<rparr>)"

definition np_random_uniform :: "real \<Rightarrow> real \<Rightarrow> rng \<Rightarrow> real \<times> rng" where
  "np_random_uniform low high g =
     (let (u, g1) = np_random_rand g in (low + (high - low) * u, g1))"

definition np_random_normal :: "nat \<Rightarrow> rng \<Rightarrow> ndarray \<times> rng" where
  "np_random_normal n g =
     (\<lparr>side = n, cells = normal_draws g 0\<rparr>,
      g\<lparr>normal_draws := (\<lambda>k. normal_draws g (Suc k))\<rparr>)"

text \<open>\<^verbatim>\<open>np.linspace(start, stop, num)\<close> for \<open>num \<ge> 2\<close>: both ends included.\<close>

definition np_linspace :: "real \<Rightarrow> real \<Rightarrow> nat \<Rightarrow> real list" where
  "np_linspace start stop num =
     map (\<lambda>k. start + real k * ((stop - start) / real (num - 1))) [0..<num]"

section \<open>Foam generator\<close>

text \<open>\<^verbatim>\<open>np.array([uniform(0, size), uniform(0, size), uniform(0, size)])\<close>\<close>

definition draw_point :: "nat \<Rightarrow> rng \<Rightarrow> vec3 \<times> rng" where
  "draw_point sz g =
     (let (x, g1) = np_random_uniform 0 (real sz) g;
          (y, g2) = np_random_uniform 0 (real sz) g1;
          (z, g3) = np_random_uniform 0 (real sz) g2
      in ((x, y, z), g3))"

text \<open>\<^verbatim>\<open>range(max(0, int(c - 3*sigma)), min(size, int(c + 3*sigma + 1)))\<close>\<close>

definition axis_range :: "nat \<Rightarrow> real \<Rightarrow> real \<Rightarrow> nat list" where
  "axis_range sz c sigma =
     map nat [max 0 (py_int (c - 3 * sigma)) .. min (int sz) (py_int (c + 3 * sigma + 1)) - 1]"

text \<open>
  The body of the innermost loop. A comparison with nan is false, so a cell whose
  distance is nan receives nothing.
\<close>

definition deposit :: "real \<Rightarrow> vec3 \<Rightarrow> vec3 \<Rightarrow> real \<Rightarrow> index3 \<Rightarrow> ndarray \<Rightarrow> ndarray" where
  "deposit sigma x1 x2 chi idx grid =
     (case idx of (i, j, k) \<Rightarrow>
        (case point_to_line_dist (real i, real j, real k) x1 x2 of
           Num d \<Rightarrow>
             if d < 3 * sigma
             then additem grid (i, j, k) (chi * exp (- d\<^sup>2 / (2 * sigma\<^sup>2)))
             else grid
         | _ \<Rightarrow> grid))"

text \<open>The body of the loop over the sample parameters \<open>t\<close>.\<close>

definition rasterize_sample ::
  "nat \<Rightarrow> real \<Rightarrow> vec3 \<Rightarrow> vec3 \<Rightarrow> real \<Rightarrow> real \<Rightarrow> ndarray \<Rightarrow> ndarray" where
  "rasterize_sample sz sigma x1 x2 chi t grid =
     (case vadd x1 (vscale t (vsub x2 x1)) of (c0, c1, c2) \<Rightarrow>
        fold (\<lambda>i. fold (\<lambda>j. fold (\<lambda>k. deposit sigma x1 x2 chi (i, j, k))
                                 (axis_range sz c2 sigma))
                      (axis_range sz c1 sigma))
             (axis_range sz c0 sigma) grid)"

text \<open>The body of the loop over the strings: draw a segment and its handedness, rasterize.\<close>

definition add_string :: "nat \<Rightarrow> real \<Rightarrow> real \<Rightarrow> ndarray \<times> rng \<Rightarrow> ndarray \<times> rng" where
  "add_string sz bias sigma st =
     (case st of (grid, g) \<Rightarrow>
        let (x1, g1) = draw_point sz g;
            (x2, g2) = draw_point sz g1;
            (u, g3) = np_random_rand g2;
            chi = (if u < bias then 1 else - 1);
            num_points = 10
        in (fold (rasterize_sample sz sigma x1 x2 chi) (np_linspace 0 1 num_points) grid, g3))"

definition generate_vorticity_grid ::
  "nat \<Rightarrow> nat \<Rightarrow> real \<Rightarrow> real \<Rightarrow> rng \<times> heap \<Rightarrow> ref \<times> rng \<times> heap" where
  "generate_vorticity_grid sz num_strings delta_chi sigma st =
     (case st of (g, h) \<Rightarrow>
        let (grid, h1) = np_zeros sz h;
            bias = 0.5 + delta_chi / 2;
            (filled, g1) = fold (\<lambda>_. add_string sz bias sigma) [0..<num_strings] (h1 ! grid, g)
        in (grid, g1, h1[grid := filled]))"

section \<open>Stretch transform\<close>

text \<open>A \<^verbatim>\<open>for\<close> loop whose body can stop: the first stop ends the loop.\<close>

fun for_each :: "'a list \<Rightarrow> ('a \<Rightarrow> 's \<Rightarrow> stop + 's) \<Rightarrow> 's \<Rightarrow> stop + 's" where
  "for_each [] body s = Inr s"
| "for_each (x # xs) body s =
     (case body x s of Inl e \<Rightarrow> Inl e | Inr s' \<Rightarrow> for_each xs body s')"

text \<open>
  \<^verbatim>\<open>inflation_stretch(grid, stretch_factor, dilution_power)\<close>. \<^verbatim>\<open>np.zeros\<close> refuses a
  negative dimension. \<^verbatim>\<open>new_size / old_size\<close> divides two Python ints.
  \<^verbatim>\<open>1.0 / (stretch_factor ** dilution_power)\<close> divides a Python float by the power, an
  int or a float. In \<^verbatim>\<open>i / scale\<close> the loop index is converted to a float; the loops run
  only when \<open>scale \<ge> 1\<close>, so that division neither meets a zero nor leaves the range. The
  input array is only read. Storage for the new array is taken to be available.
\<close>

definition inflation_stretch :: "ref \<Rightarrow> int \<Rightarrow> int \<Rightarrow> heap \<Rightarrow> stop + (ref \<times> heap)" where
  "inflation_stretch grid stretch_factor dilution_power h =
     (let old_size = side (h ! grid);
          new_size = int old_size * stretch_factor
      in if new_size < 0 then Inl (Raise ValueError)
         else
           let (new_grid, h1) = np_zeros (nat new_size) h in
           case py_int_truediv new_size (int old_size) of Inl e \<Rightarrow> Inl (Raise e) | Inr scale \<Rightarrow>
           case py_pow stretch_factor dilution_power of Inl e \<Rightarrow> Inl (Raise e) | Inr pw \<Rightarrow>
           case py_float_truediv 1 pw of Inl e \<Rightarrow> Inl e | Inr dilution \<Rightarrow>
           case for_each [0..<nat new_size] (\<lambda>i a.
                  case py_float (int i) of Inl e \<Rightarrow> Inl (Raise e) | Inr fi \<Rightarrow>
                  let old_i = py_int (fi / scale) in
                  for_each [0..<nat new_size] (\<lambda>j a.
                    case py_float (int j) of Inl e \<Rightarrow> Inl (Raise e) | Inr fj \<Rightarrow>
                    let old_j = py_int (fj / scale) in
                    for_each [0..<nat new_size] (\<lambda>k a.
                      case py_float (int k) of Inl e \<Rightarrow> Inl (Raise e) | Inr fk \<Rightarrow>
                      let old_k = py_int (fk / scale) in
                      case getitem (h1 ! grid) old_i old_j old_k of
                        Inl e \<Rightarrow> Inl (Raise e)
                      | Inr v \<Rightarrow> Inr (setitem a (i, j, k) (v * dilution))) a) a)
                  (h1 ! new_grid) of
             Inl e \<Rightarrow> Inl e
           | Inr filled \<Rightarrow> Inr (new_grid, h1[new_grid := filled]))"

section \<open>Oscillation transform\<close>

text \<open>The body of the loop over the steps.\<close>

definition reheating_step ::
  "ref \<Rightarrow> real \<Rightarrow> real \<Rightarrow> real \<Rightarrow> nat \<Rightarrow> rng \<times> heap \<Rightarrow> rng \<times> heap" where
  "reheating_step grid epsilon omega delta_chi step st =
     (case st of (g, h) \<Rightarrow>
        let t = real step * 0.1;
            amp = 1 + epsilon * cos (omega * t);
            (noise, g1) = np_random_normal (side (h ! grid)) g;
            inj = scalar_mul (delta_chi * sin (omega * t)) noise;
            h1 = imul grid amp h;
            h2 = iadd grid inj h1
        in (g1, h2))"

definition reheating_oscillations ::
  "ref \<Rightarrow> int \<Rightarrow> real \<Rightarrow> real \<Rightarrow> real \<Rightarrow> rng \<times> heap \<Rightarrow> ref \<times> rng \<times> heap" where
  "reheating_oscillations grid num_steps epsilon omega delta_chi st =
     (grid, fold (reheating_step grid epsilon omega delta_chi) [0..<nat num_steps] st)"

section \<open>Cycle reducer and cycle driver\<close>

text \<open>
  \<^verbatim>\<open>(abs(net_L) / volume) ** (1/3) * 0.04\<close>, on the NumPy scalars the driver passes:
  the quotient is non-negative, and a zero volume gives nan or an infinity.
\<close>

definition compute_lambda :: "real \<Rightarrow> nat \<Rightarrow> np_float" where
  "compute_lambda net_L volume =
     (case np_true_divide \<bar>net_L\<bar> (real volume) of
        Num q \<Rightarrow> Num (q powr (1 / 3) * 0.04)
      | PosInf \<Rightarrow> PosInf
      | _ \<Rightarrow> NaN)"

definition compute_v_peak :: "np_float \<Rightarrow> np_float" where
  "compute_v_peak lamb =
     (case lamb of
        Num x \<Rightarrow> Num (220 * (x / 0.04))
      | PosInf \<Rightarrow> PosInf
      | NegInf \<Rightarrow> NegInf
      | NaN \<Rightarrow> NaN)"

record cycle_result =
  net_L_pre :: real
  net_L_post_infl :: real
  net_L_post_reheat :: real
  lambda_val :: np_float
  v_peak :: np_float
  helicity :: string

definition run_one_cycle :: "rng \<times> heap \<Rightarrow> stop + (cycle_result \<times> rng \<times> heap)" where
  "run_one_cycle st =
     (let (grid, g1, h1) = generate_vorticity_grid 20 50 (1 / 10 ^ 8) 1 st;
          pre = np_sum (h1 ! grid);
          (noise, g2) = np_random_normal (side (h1 ! grid)) g1;
          h2 = iadd grid (scalar_mul (1 / 10 ^ 8) noise) h1
      in case inflation_stretch grid 4 3 h2 of
           Inl e \<Rightarrow> Inl e
         | Inr (grid', h3) \<Rightarrow>
             let post_infl = np_sum (h3 ! grid');
                 (grid'', g3, h4) =
                   reheating_oscillations grid' 50 0.01 (0.2 * pi) (1 / 10 ^ 8) (g2, h3);
                 post_reheat = np_sum (h4 ! grid'');
                 volume = side (h4 ! grid'') * side (h4 ! grid'') * side (h4 ! grid'');
                 lam = compute_lambda post_reheat volume;
                 v = compute_v_peak lam
             in Inr (\<lparr>net_L_pre = pre, net_L_post_infl = post_infl,
                       net_L_post_reheat = post_reheat, lambda_val = lam, v_peak = v,
                       helicity = (if 0 < post_reheat then ''+'' else ''-'')\<rparr>, g3, h4))"

section \<open>The stretched field in closed form\<close>

text \<open>
  The field of side \<open>N * k\<close> whose cell \<open>(i, j, l)\<close> is the source cell at
  \<open>(i div k, j div k, l div k)\<close> times the dilution factor, and 0 outside its shape as
  every array \<^verbatim>\<open>np.zeros\<close> made is. The loops of \<open>inflation_stretch\<close> are compared with it.
\<close>

definition stretch_spec :: "ndarray \<Rightarrow> nat \<Rightarrow> real \<Rightarrow> ndarray" where
  "stretch_spec a k dilution =
     \<lparr>side = side a * k,
      cells = (\<lambda>(i, j, l).
        if i < side a * k \<and> j < side a * k \<and> l < side a * k
        then cells a (i div k, j div k, l div k) * dilution else 0)\<rparr>"

section \<open>The generated field in closed form\<close>

text \<open>
  The index range the generator visits on one axis around a sample coordinate \<open>c\<close>:
  from \<open>int (c - 3 sigma)\<close> to \<open>int (c + 3 sigma + 1)\<close> (excluded), cut to \<open>[0, N)\<close>.
\<close>

definition neighbourhood :: "nat \<Rightarrow> real \<Rightarrow> real \<Rightarrow> nat \<Rightarrow> bool" where
  "neighbourhood sz c sigma i \<longleftrightarrow>
     max 0 (py_int (c - 3 * sigma)) \<le> int i \<and> int i < min (int sz) (py_int (c + 3 * sigma + 1))"

text \<open>
  The value a cell receives from one sample of a segment: the Gaussian of its distance to
  the whole segment when that distance is a number below \<open>3 sigma\<close>, and nothing otherwise.
\<close>

definition kernel_value :: "real \<Rightarrow> vec3 \<Rightarrow> vec3 \<Rightarrow> real \<Rightarrow> index3 \<Rightarrow> real" where
  "kernel_value sigma x1 x2 chi idx =
     (case idx of (i, j, k) \<Rightarrow>
        (case point_to_line_dist (real i, real j, real k) x1 x2 of
           Num d \<Rightarrow> if d < 3 * sigma then chi * exp (- d\<^sup>2 / (2 * sigma\<^sup>2)) else 0
         | _ \<Rightarrow> 0))"

text \<open>What the sample at parameter \<open>t\<close> of a segment adds to a cell.\<close>

definition sample_contribution ::
  "nat \<Rightarrow> real \<Rightarrow> vec3 \<Rightarrow> vec3 \<Rightarrow> real \<Rightarrow> real \<Rightarrow> index3 \<Rightarrow> real" where
  "sample_contribution sz sigma x1 x2 chi t idx =
     (case (vadd x1 (vscale t (vsub x2 x1)), idx) of ((c0, c1, c2), (i, j, k)) \<Rightarrow>
        if neighbourhood sz c0 sigma i \<and> neighbourhood sz c1 sigma j \<and> neighbourhood sz c2 sigma k
        then kernel_value sigma x1 x2 chi (i, j, k) else 0)"

text \<open>
  The segment of string number \<open>s\<close>, read off the random source: each string takes seven
  doubles, six for the end points (scaled by the grid size) and one for the handedness.
\<close>

definition drawn_segment :: "nat \<Rightarrow> real \<Rightarrow> rng \<Rightarrow> nat \<Rightarrow> vec3 \<times> vec3 \<times> real" where
  "drawn_segment sz bias g s =
     ((real sz * uniform_draws g (7 * s), real sz * uniform_draws g (7 * s + 1),
       real sz * uniform_draws g (7 * s + 2)),
      (real sz * uniform_draws g (7 * s + 3), real sz * uniform_draws g (7 * s + 4),
       real sz * uniform_draws g (7 * s + 5)),
      (if uniform_draws g (7 * s + 6) < bias then 1 else - 1))"

definition segment_contribution ::
  "nat \<Rightarrow> real \<Rightarrow> vec3 \<times> vec3 \<times> real \<Rightarrow> index3 \<Rightarrow> real" where
  "segment_contribution sz sigma seg idx =
     (case seg of (x1, x2, chi) \<Rightarrow>
        (\<Sum>t\<leftarrow>np_linspace 0 1 10. sample_contribution sz sigma x1 x2 chi t idx))"

section \<open>Inputs that keep the geometry utility inside the range of float64\<close>

text \<open>Coordinates of magnitude at most a bound.\<close>

definition coords_within :: "real \<Rightarrow> vec3 \<Rightarrow> bool" where
  "coords_within c v = (case v of (x, y, z) \<Rightarrow> \<bar>x\<bar> \<le> c \<and> \<bar>y\<bar> \<le> c \<and> \<bar>z\<bar> \<le> c)"

text \<open>A real that float64 does not round to zero, unless it is zero.\<close>

definition keeps_magnitude :: "real \<Rightarrow> bool" where
  "keeps_magnitude x = (x = 0 \<or> float64_underflow < \<bar>x\<bar>)"

text \<open>The three products of a dot product, none of them underflowing.\<close>

definition products_keep_magnitude :: "vec3 \<Rightarrow> vec3 \<Rightarrow> bool" where
  "products_keep_magnitude u v =
     (case (u, v) of ((x1, y1, z1), (x2, y2, z2)) \<Rightarrow>
        keeps_magnitude (x1 * x2) \<and> keeps_magnitude (y1 * y2) \<and> keeps_magnitude (z1 * z2))"

section \<open>Geometry utility: facts\<close>

lemma np_dot_zero_right: "np_dot v (0, 0, 0) = 0"
  by (cases v) simp

lemma np_dot_self_zero: "np_dot v v = 0 \<longleftrightarrow> v = (0, 0, 0)"
proof (cases v)
  case (fields x y z)
  have "x * x + y * y + z * z = 0 \<longleftrightarrow> x = 0 \<and> y = 0 \<and> z = 0"
    by (metis (no_types, opaque_lifting) add_nonneg_eq_0_iff mult_eq_0_iff
        zero_le_square add_nonneg_nonneg)
  with fields show ?thesis by simp
qed

lemma vsub_zero: "vsub b a = (0, 0, 0) \<longleftrightarrow> a = b"
  by (cases a, cases b) auto

lemma np_dot_self_pos: "a \<noteq> b \<Longrightarrow> 0 < np_dot (vsub b a) (vsub b a)"
proof -
  assume "a \<noteq> b"
  then have "np_dot (vsub b a) (vsub b a) \<noteq> 0"
    by (simp add: np_dot_self_zero vsub_zero)
  moreover have "0 \<le> np_dot (vsub b a) (vsub b a)"
    by (cases a, cases b) simp
  ultimately show ?thesis by simp
qed

text \<open>The squared distance from p to the point at parameter s, as a quadratic in s.\<close>

lemma sq_dist_param:
  "np_dot (vsub p (vadd a (vscale s (vsub b a)))) (vsub p (vadd a (vscale s (vsub b a)))) =
     np_dot (vsub p a) (vsub p a) - 2 * s * np_dot (vsub p a) (vsub b a)
       + s * s * np_dot (vsub b a) (vsub b a)"
  by (cases p, cases a, cases b) (simp add: algebra_simps)

lemma point_to_line_dist_nondeg:
  assumes "a \<noteq> b"
  shows "point_to_line_dist p a b =
           Num (np_linalg_norm (vsub p (vadd a (vscale
             (min (max (np_dot (vsub p a) (vsub b a) / np_dot (vsub b a) (vsub b a)) 0) 1)
             (vsub b a)))))"
  using np_dot_self_pos [OF assms]
  by (simp add: point_to_line_dist_def np_true_divide_def np_clip_def Let_def)

lemma vsub_self: "vsub a a = (0, 0, 0)"
  by (cases a) simp

lemma point_to_line_dist_degenerate: "point_to_line_dist p a a = NaN"
  by (simp add: point_to_line_dist_def np_true_divide_def np_clip_def Let_def
      vsub_self np_dot_zero_right)

lemma quad_min:
  fixes A B C :: real
  assumes "0 < C" "0 \<le> s" "s \<le> 1"
  defines "t \<equiv> min (max (B / C) 0) 1"
  shows "A - 2 * t * B + t * t * C \<le> A - 2 * s * B + s * s * C"
proof -
  define q where "q = B / C"
  have B: "B = q * C" using assms(1) by (simp add: q_def)
  have diff: "(A - 2 * s * B + s * s * C) - (A - 2 * t * B + t * t * C)
       = C * ((s - t) * (s + t - 2 * q))"
    by (simp add: B algebra_simps)
  have "0 \<le> (s - t) * (s + t - 2 * q)"
  proof -
    consider "q \<le> 0" | "0 < q" "q < 1" | "1 \<le> q" by linarith
    then show ?thesis
    proof cases
      case 1
      then have "t = 0" by (simp add: t_def q_def)
      with 1 assms show ?thesis by (simp add: mult_nonneg_nonneg)
    next
      case 2
      then have "t = q" by (simp add: t_def q_def)
      then have "(s - t) * (s + t - 2 * q) = (s - q) * (s - q)" by simp
      then show ?thesis by simp
    next
      case 3
      then have "t = 1" by (simp add: t_def q_def)
      with 3 assms show ?thesis by (simp add: mult_nonpos_nonpos)
    qed
  qed
  with assms(1) have "0 \<le> C * ((s - t) * (s + t - 2 * q))" by simp
  with diff show ?thesis by linarith
qed


lemma vadd_vscale_one: "vadd a (vscale 1 (vsub b a)) = b"
  by (cases a, cases b) simp

lemma vadd_vscale_zero: "vadd a (vscale 0 v) = a"
  by (cases a, cases v) simp

lemma vsub_vadd_cancel: "vsub (vadd a v) a = v"
  by (cases a, cases v) simp

lemma np_dot_vscale_left: "np_dot (vscale s v) w = s * np_dot v w"
  by (cases v, cases w) (simp add: algebra_simps)

lemma np_linalg_norm_zero: "np_linalg_norm (0, 0, 0) = 0"
  by (simp add: np_linalg_norm_def)

lemma seg_param_min:
  assumes "a \<noteq> b" "0 \<le> s" "s \<le> 1"
  shows "np_linalg_norm (vsub p (vadd a (vscale
             (min (max (np_dot (vsub p a) (vsub b a) / np_dot (vsub b a) (vsub b a)) 0) 1)
             (vsub b a))))
         \<le> np_linalg_norm (vsub p (vadd a (vscale s (vsub b a))))"
  unfolding np_linalg_norm_def sq_dist_param
  by (rule real_sqrt_le_mono) (rule quad_min [OF np_dot_self_pos [OF assms(1)] assms(2,3)])

text \<open>
  Over the reals, on a segment with distinct end points: the result is the distance from
  \<open>p\<close> to the point of the segment at the clamped projection parameter, no point of the
  closed segment is nearer, it is 0 at \<open>p = a\<close>, and beyond an end point on the line it
  is the distance to that end point.
\<close>

lemma point_to_line_dist_closest:
  assumes "a \<noteq> b"
  shows "\<exists>t d. point_to_line_dist p a b = Num d
     \<and> t = min (max (np_dot (vsub p a) (vsub b a) / np_dot (vsub b a) (vsub b a)) 0) 1
     \<and> 0 \<le> t \<and> t \<le> 1
     \<and> d = np_linalg_norm (vsub p (vadd a (vscale t (vsub b a))))
     \<and> (\<forall>s. 0 \<le> s \<and> s \<le> 1 \<longrightarrow>
            d \<le> np_linalg_norm (vsub p (vadd a (vscale s (vsub b a)))))
     \<and> (p = a \<longrightarrow> d = 0)
     \<and> (\<forall>s. p = vadd a (vscale s (vsub b a)) \<and> 1 < s \<longrightarrow>
            d = np_linalg_norm (vsub p b) \<and> d \<le> np_linalg_norm (vsub p a) \<and> 0 < d)
     \<and> (\<forall>s. p = vadd a (vscale s (vsub b a)) \<and> s < 0 \<longrightarrow>
            d = np_linalg_norm (vsub p a) \<and> d \<le> np_linalg_norm (vsub p b) \<and> 0 < d)"
proof -
  define C where "C = np_dot (vsub b a) (vsub b a)"
  define t where "t = min (max (np_dot (vsub p a) (vsub b a) / C) 0) 1"
  define d where "d = np_linalg_norm (vsub p (vadd a (vscale t (vsub b a))))"
  have Cpos: "0 < C"
    unfolding C_def by (rule np_dot_self_pos [OF assms])
  have res: "point_to_line_dist p a b = Num d"
    unfolding d_def t_def C_def by (rule point_to_line_dist_nondeg [OF assms])
  have range: "0 \<le> t" "t \<le> 1"
    by (simp_all add: t_def)
  have least: "d \<le> np_linalg_norm (vsub p (vadd a (vscale s (vsub b a))))"
    if "0 \<le> s" "s \<le> 1" for s
    unfolding d_def t_def C_def by (rule seg_param_min [OF assms that])
  have le_a: "d \<le> np_linalg_norm (vsub p a)"
    using least [of 0] by (simp add: vadd_vscale_zero)
  have le_b: "d \<le> np_linalg_norm (vsub p b)"
    using least [of 1] by (simp add: vadd_vscale_one)
  have at_a: "d = 0" if "p = a"
  proof -
    have "t = 0"
      using that by (simp add: t_def vsub_self) (cases "vsub b a", simp)
    then show ?thesis
      using that by (simp add: d_def vadd_vscale_zero vsub_self np_linalg_norm_zero)
  qed
  have proj_on_line: "np_dot (vsub p a) (vsub b a) / C = s"
    if "p = vadd a (vscale s (vsub b a))" for s
    using that Cpos by (simp add: vsub_vadd_cancel np_dot_vscale_left C_def)
  have norm_on_line: "np_linalg_norm (vsub p a) = \<bar>s\<bar> * sqrt C"
    if "p = vadd a (vscale s (vsub b a))" for s
  proof -
    have "np_dot (vsub p a) (vsub p a) = s\<^sup>2 * C"
      using that
      by (cases a, cases b) (simp add: C_def power2_eq_square algebra_simps)
    then show ?thesis
      by (simp add: np_linalg_norm_def real_sqrt_mult)
  qed
  have norm_on_line_b: "np_linalg_norm (vsub p b) = \<bar>s - 1\<bar> * sqrt C"
    if "p = vadd a (vscale s (vsub b a))" for s
  proof -
    have "np_dot (vsub p b) (vsub p b) = (s - 1)\<^sup>2 * C"
      using that
      by (cases a, cases b) (simp add: C_def power2_eq_square algebra_simps)
    then show ?thesis
      by (simp add: np_linalg_norm_def real_sqrt_mult)
  qed
  have beyond_b: "d = np_linalg_norm (vsub p b) \<and> d \<le> np_linalg_norm (vsub p a) \<and> 0 < d"
    if "p = vadd a (vscale s (vsub b a))" "1 < s" for s
  proof -
    have "t = 1"
      using that(2) by (simp add: t_def proj_on_line [OF that(1)])
    then have eq: "d = np_linalg_norm (vsub p b)"
      by (simp add: d_def vadd_vscale_one)
    have "0 < \<bar>s - 1\<bar> * sqrt C"
      using that(2) Cpos by (intro mult_pos_pos) simp_all
    with eq le_a show ?thesis
      by (simp add: norm_on_line_b [OF that(1)])
  qed
  have before_a: "d = np_linalg_norm (vsub p a) \<and> d \<le> np_linalg_norm (vsub p b) \<and> 0 < d"
    if "p = vadd a (vscale s (vsub b a))" "s < 0" for s
  proof -
    have "t = 0"
      using that(2) by (simp add: t_def proj_on_line [OF that(1)])
    then have eq: "d = np_linalg_norm (vsub p a)"
      by (simp add: d_def vadd_vscale_zero)
    have "0 < \<bar>s\<bar> * sqrt C"
      using that(2) Cpos by (intro mult_pos_pos) simp_all
    with eq le_b show ?thesis
      by (simp add: norm_on_line [OF that(1)])
  qed
  show ?thesis
    using res range least at_a beyond_b before_a
    unfolding t_def d_def C_def by blast
qed

text \<open>Inside the range the float operations are the real ones.\<close>

lemma np_overflow_in_range: "\<bar>x\<bar> < float64_overflow \<Longrightarrow> np_overflow x = Num x"
  by (auto simp: np_overflow_def)

lemma np_underflow_keeps: "keeps_magnitude x \<Longrightarrow> np_underflow (Num x) = Num x"
  by (auto simp: keeps_magnitude_def)

lemma abs_mult_le: "\<bar>x\<bar> \<le> c \<Longrightarrow> \<bar>y\<bar> \<le> d \<Longrightarrow> \<bar>x * y\<bar> \<le> c * (d :: real)"
  unfolding abs_mult by (rule mult_mono) simp_all

lemma np_clip_overflow:
  "np_clip (np_overflow q) 0 1 = Num (min (max q 0) 1)"
proof -
  have "1 < float64_overflow"
    by (simp add: float64_overflow_def)
  then show ?thesis
    by (auto simp: np_clip_def np_overflow_def)
qed

lemma np_subtract3_in_range:
  assumes "coords_within c u" "coords_within d v" "c + d < float64_overflow"
  shows "np_subtract3 (np_array u) (np_array v) = np_array (vsub u v)
         \<and> coords_within (c + d) (vsub u v)"
proof -
  obtain x1 y1 z1 where u: "u = (x1, y1, z1)" by (cases u)
  obtain x2 y2 z2 where v: "v = (x2, y2, z2)" by (cases v)
  from assms(1,2) have b: "\<bar>x1 - x2\<bar> \<le> c + d" "\<bar>y1 - y2\<bar> \<le> c + d" "\<bar>z1 - z2\<bar> \<le> c + d"
    by (auto simp: coords_within_def u v)
  with assms(3) have "np_overflow (x1 - x2) = Num (x1 - x2)" "np_overflow (y1 - y2) = Num (y1 - y2)"
    "np_overflow (z1 - z2) = Num (z1 - z2)"
    by (auto intro!: np_overflow_in_range)
  with b show ?thesis
    by (simp add: u v np_subtract_def coords_within_def)
qed

lemma np_add3_in_range:
  assumes "coords_within c u" "coords_within d v" "c + d < float64_overflow"
  shows "np_add3 (np_array u) (np_array v) = np_array (vadd u v)
         \<and> coords_within (c + d) (vadd u v)"
proof -
  obtain x1 y1 z1 where u: "u = (x1, y1, z1)" by (cases u)
  obtain x2 y2 z2 where v: "v = (x2, y2, z2)" by (cases v)
  from assms(1,2) have b: "\<bar>x1 + x2\<bar> \<le> c + d" "\<bar>y1 + y2\<bar> \<le> c + d" "\<bar>z1 + z2\<bar> \<le> c + d"
    by (auto simp: coords_within_def u v)
  with assms(3) have "np_overflow (x1 + x2) = Num (x1 + x2)" "np_overflow (y1 + y2) = Num (y1 + y2)"
    "np_overflow (z1 + z2) = Num (z1 + z2)"
    by (auto intro!: np_overflow_in_range)
  with b show ?thesis
    by (simp add: u v coords_within_def)
qed

lemma np_scale3_in_range:
  assumes "0 \<le> t" "t \<le> 1" "coords_within c v" "c < float64_overflow"
  shows "np_scale3 (Num t) (np_array v) = np_array (vscale t v)
         \<and> coords_within c (vscale t v)"
proof -
  obtain x y z where v: "v = (x, y, z)" by (cases v)
  have le: "\<bar>t * w\<bar> \<le> c" if "\<bar>w\<bar> \<le> c" for w
  proof -
    have "\<bar>t * w\<bar> \<le> 1 * c"
      using assms(1,2) that by (intro abs_mult_le) simp_all
    then show ?thesis by simp
  qed
  from assms(3) have b: "\<bar>t * x\<bar> \<le> c" "\<bar>t * y\<bar> \<le> c" "\<bar>t * z\<bar> \<le> c"
    by (auto simp: coords_within_def v intro: le)
  with assms(4) have "np_overflow (t * x) = Num (t * x)" "np_overflow (t * y) = Num (t * y)"
    "np_overflow (t * z) = Num (t * z)"
    by (auto intro!: np_overflow_in_range)
  with b show ?thesis
    by (simp add: v coords_within_def)
qed

lemma np_overflow_third:
  assumes "\<bar>x\<bar> \<le> m" "3 * m < float64_overflow"
  shows "np_overflow x = Num x"
proof (rule np_overflow_in_range)
  from assms(1) have "0 \<le> m" by linarith
  with assms show "\<bar>x\<bar> < float64_overflow" by linarith
qed

lemma sum_of_products_in_range:
  assumes "\<bar>a1\<bar> \<le> m" "\<bar>a2\<bar> \<le> m" "\<bar>a3\<bar> \<le> m" "3 * m < float64_overflow"
  shows "np_add (np_add (Num a1) (Num a2)) (Num a3) = Num (a1 + a2 + a3)"
proof -
  have m: "0 \<le> m" using assms(1) by linarith
  have "np_overflow (a1 + a2) = Num (a1 + a2)"
    using assms m by (intro np_overflow_in_range) linarith
  moreover have "np_overflow (a1 + a2 + a3) = Num (a1 + a2 + a3)"
    using assms m by (intro np_overflow_in_range) linarith
  ultimately show ?thesis by simp
qed

lemma np_dot_f64_in_range:
  assumes "coords_within c u" "coords_within c v" "3 * (c * c) < float64_overflow"
    and "products_keep_magnitude u v"
  shows "np_dot_f64 (np_array u) (np_array v) = Num (np_dot u v)"
proof -
  obtain x1 y1 z1 where u: "u = (x1, y1, z1)" by (cases u)
  obtain x2 y2 z2 where v: "v = (x2, y2, z2)" by (cases v)
  from assms(1,2) have "\<bar>x1\<bar> \<le> c" "\<bar>y1\<bar> \<le> c" "\<bar>z1\<bar> \<le> c"
    "\<bar>x2\<bar> \<le> c" "\<bar>y2\<bar> \<le> c" "\<bar>z2\<bar> \<le> c"
    by (simp_all add: coords_within_def u v)
  then have b: "\<bar>x1 * x2\<bar> \<le> c * c" "\<bar>y1 * y2\<bar> \<le> c * c" "\<bar>z1 * z2\<bar> \<le> c * c"
    by (blast intro: abs_mult_le)+
  have ov: "np_overflow (x1 * x2) = Num (x1 * x2)"
    "np_overflow (y1 * y2) = Num (y1 * y2)" "np_overflow (z1 * z2) = Num (z1 * z2)"
    by (rule np_overflow_third [OF _ assms(3)], fact)+
  from assms(4) have "keeps_magnitude (x1 * x2)" "keeps_magnitude (y1 * y2)"
    "keeps_magnitude (z1 * z2)"
    by (simp_all add: products_keep_magnitude_def u v)
  then have un: "np_underflow (Num (x1 * x2)) = Num (x1 * x2)"
    "np_underflow (Num (y1 * y2)) = Num (y1 * y2)" "np_underflow (Num (z1 * z2)) = Num (z1 * z2)"
    by (simp_all add: np_underflow_keeps del: np_underflow.simps)
  show ?thesis
    unfolding u v np_array.simps np_dot_f64.simps np_multiply.simps ov un np_dot.simps
    by (rule sum_of_products_in_range [OF b assms(3)])
qed

lemma np_linalg_norm_f64_in_range:
  assumes "coords_within c v" "3 * (c * c) < float64_overflow"
  shows "np_linalg_norm_f64 (np_array v) = Num (np_linalg_norm v)"
proof -
  obtain x y z where v: "v = (x, y, z)" by (cases v)
  from assms(1) have "\<bar>x\<bar> \<le> c" "\<bar>y\<bar> \<le> c" "\<bar>z\<bar> \<le> c"
    by (simp_all add: coords_within_def v)
  then have b: "\<bar>x * x\<bar> \<le> c * c" "\<bar>y * y\<bar> \<le> c * c" "\<bar>z * z\<bar> \<le> c * c"
    by (blast intro: abs_mult_le)+
  have ov: "np_overflow (x * x) = Num (x * x)"
    "np_overflow (y * y) = Num (y * y)" "np_overflow (z * z) = Num (z * z)"
    by (rule np_overflow_third [OF _ assms(2)], fact)+
  have "np_add (np_add (Num (x * x)) (Num (y * y))) (Num (z * z)) = Num (x * x + y * y + z * z)"
    by (rule sum_of_products_in_range [OF b assms(2)])
  then show ?thesis
    unfolding v np_array.simps np_linalg_norm_f64.simps np_multiply.simps ov
    by (simp add: np_linalg_norm_def)
qed

text \<open>
  On coordinates of magnitude at most \<open>2^500\<close>, with distinct end points and no
  underflowing product in the two dot products of the projection, the function with the
  range of float64 returns what the function over the reals returns.
\<close>

lemma point_to_line_dist_f64_in_range:
  assumes p: "coords_within (2 ^ 500) p" and a: "coords_within (2 ^ 500) a"
    and b: "coords_within (2 ^ 500) b" and ne: "a \<noteq> b"
    and num: "products_keep_magnitude (vsub p a) (vsub b a)"
    and den: "products_keep_magnitude (vsub b a) (vsub b a)"
  shows "point_to_line_dist_f64 p a b = point_to_line_dist p a b"
proof -
  let ?B = "(2 :: real) ^ 500"
  let ?ab = "vsub b a"
  let ?ap = "vsub p a"
  let ?t = "min (max (np_dot ?ap ?ab / np_dot ?ab ?ab) 0) 1"
  let ?closest = "vadd a (vscale ?t ?ab)"
  have r2: "?B + ?B < float64_overflow"
    and r3: "?B + (?B + ?B) < float64_overflow"
    and r5: "?B + (?B + (?B + ?B)) < float64_overflow"
    and d2: "3 * ((?B + ?B) * (?B + ?B)) < float64_overflow"
    and d5: "3 * ((?B + (?B + (?B + ?B))) * (?B + (?B + (?B + ?B)))) < float64_overflow"
    by (simp_all add: float64_overflow_def)
  have ab: "np_subtract3 (np_array b) (np_array a) = np_array ?ab" "coords_within (?B + ?B) ?ab"
    using np_subtract3_in_range [OF b a r2] by simp_all
  have ap: "np_subtract3 (np_array p) (np_array a) = np_array ?ap" "coords_within (?B + ?B) ?ap"
    using np_subtract3_in_range [OF p a r2] by simp_all
  have dot_num: "np_dot_f64 (np_array ?ap) (np_array ?ab) = Num (np_dot ?ap ?ab)"
    by (rule np_dot_f64_in_range [OF ap(2) ab(2) d2 num])
  have dot_den: "np_dot_f64 (np_array ?ab) (np_array ?ab) = Num (np_dot ?ab ?ab)"
    by (rule np_dot_f64_in_range [OF ab(2) ab(2) d2 den])
  have pos: "np_dot ?ab ?ab \<noteq> 0"
    using np_dot_self_pos [OF ne] by simp
  have proj: "np_clip (np_divide (Num (np_dot ?ap ?ab)) (Num (np_dot ?ab ?ab))) 0 1 = Num ?t"
    using pos by (simp add: np_clip_overflow)
  have t: "0 \<le> ?t" "?t \<le> 1"
    by simp_all
  have scaled: "np_scale3 (Num ?t) (np_array ?ab) = np_array (vscale ?t ?ab)"
    "coords_within (?B + ?B) (vscale ?t ?ab)"
    using np_scale3_in_range [OF t ab(2)] r2 by simp_all
  have closest: "np_add3 (np_array a) (np_array (vscale ?t ?ab)) = np_array ?closest"
    "coords_within (?B + (?B + ?B)) ?closest"
    using np_add3_in_range [OF a scaled(2) r3] by simp_all
  have diff: "np_subtract3 (np_array p) (np_array ?closest) = np_array (vsub p ?closest)"
    "coords_within (?B + (?B + (?B + ?B))) (vsub p ?closest)"
    using np_subtract3_in_range [OF p closest(2) r5] by simp_all
  have norm: "np_linalg_norm_f64 (np_array (vsub p ?closest)) = Num (np_linalg_norm (vsub p ?closest))"
    by (rule np_linalg_norm_f64_in_range [OF diff(2) d5])
  have "point_to_line_dist_f64 p a b = Num (np_linalg_norm (vsub p ?closest))"
    unfolding point_to_line_dist_f64_def Let_def ab(1) ap(1) dot_num dot_den proj scaled(1)
      closest(1) diff(1) norm
    by (rule refl)
  then show ?thesis
    by (simp only: point_to_line_dist_nondeg [OF ne])
qed

text \<open>
  Claim C6, as stated, fails at the ends of the range of float64. On the segment from
  the origin to \<open>(2^-600, 0, 0)\<close>, whose end points differ, the squared length underflows
  to zero and the function returns nan at \<open>p = a\<close>, where the claim promises 0. At
  \<open>p = (2^600, 0, 0)\<close> on the line through the unit segment the square of the distance
  overflows and the function returns an infinity, not the distance \<open>2^600 - 1\<close> to the
  nearer end point.
\<close>

theorem point_to_line_dist_f64_out_of_range:
  "((0, 0, 0) :: vec3) \<noteq> (1 / 2 ^ 600, 0, 0)
   \<and> point_to_line_dist_f64 (0, 0, 0) (0, 0, 0) (1 / 2 ^ 600, 0, 0) = NaN
   \<and> ((0, 0, 0) :: vec3) \<noteq> (1, 0, 0)
   \<and> point_to_line_dist_f64 (2 ^ 600, 0, 0) (0, 0, 0) (1, 0, 0) = PosInf"
proof -
  have tiny: "point_to_line_dist_f64 (0, 0, 0) (0, 0, 0) (1 / 2 ^ 600, 0, 0) = NaN"
    by (simp add: point_to_line_dist_f64_def Let_def np_subtract_def np_overflow_def
        float64_overflow_def float64_underflow_def np_clip_def)
  have huge: "point_to_line_dist_f64 (2 ^ 600, 0, 0) (0, 0, 0) (1, 0, 0) = PosInf"
    by (simp add: point_to_line_dist_f64_def Let_def np_subtract_def np_overflow_def
        float64_overflow_def float64_underflow_def np_clip_def)
  from tiny huge show ?thesis by simp
qed

text \<open>
  Claim C6, amended. For coordinates of magnitude at most \<open>2^500\<close>, distinct end points
  and no underflowing product in the two dot products of the projection, the geometry
  utility returns a number \<open>d\<close>: the distance from \<open>p\<close> to the point of the segment at the
  projection parameter clamped to \<open>[0, 1]\<close>. No point of the closed segment is nearer to
  \<open>p\<close>, so \<open>d\<close> is the distance to the closest point of the segment. It is 0 at \<open>p = a\<close>;
  for \<open>p\<close> on the line through \<open>a\<close> and \<open>b\<close> beyond an end point it is the (positive)
  distance to that end point, which is the nearer one.
\<close>

theorem point_to_line_dist_f64_closest:
  assumes "coords_within (2 ^ 500) p" "coords_within (2 ^ 500) a" "coords_within (2 ^ 500) b"
    and "a \<noteq> b"
    and "products_keep_magnitude (vsub p a) (vsub b a)"
    and "products_keep_magnitude (vsub b a) (vsub b a)"
  shows "\<exists>t d. point_to_line_dist_f64 p a b = Num d
     \<and> t = min (max (np_dot (vsub p a) (vsub b a) / np_dot (vsub b a) (vsub b a)) 0) 1
     \<and> 0 \<le> t \<and> t \<le> 1
     \<and> d = np_linalg_norm (vsub p (vadd a (vscale t (vsub b a))))
     \<and> (\<forall>s. 0 \<le> s \<and> s \<le> 1 \<longrightarrow>
            d \<le> np_linalg_norm (vsub p (vadd a (vscale s (vsub b a)))))
     \<and> (p = a \<longrightarrow> d = 0)
     \<and> (\<forall>s. p = vadd a (vscale s (vsub b a)) \<and> 1 < s \<longrightarrow>
            d = np_linalg_norm (vsub p b) \<and> d \<le> np_linalg_norm (vsub p a) \<and> 0 < d)
     \<and> (\<forall>s. p = vadd a (vscale s (vsub b a)) \<and> s < 0 \<longrightarrow>
            d = np_linalg_norm (vsub p a) \<and> d \<le> np_linalg_norm (vsub p b) \<and> 0 < d)"
  unfolding point_to_line_dist_f64_in_range [OF assms]
  by (rule point_to_line_dist_closest [OF assms(4)])

theorem point_to_line_dist_f64_closest_witness:
  "coords_within (2 ^ 500) (3, 0, 0) \<and> coords_within (2 ^ 500) (0, 0, 0)
   \<and> coords_within (2 ^ 500) (1, 0, 0) \<and> coords_within (2 ^ 500) (- 2, 0, 0)
   \<and> coords_within (2 ^ 500) (0, 1, 0)
   \<and> ((0, 0, 0) :: vec3) \<noteq> (1, 0, 0)
   \<and> products_keep_magnitude (vsub (3, 0, 0) (0, 0, 0)) (vsub (1, 0, 0) (0, 0, 0))
   \<and> products_keep_magnitude (vsub (- 2, 0, 0) (0, 0, 0)) (vsub (1, 0, 0) (0, 0, 0))
   \<and> products_keep_magnitude (vsub (0, 0, 0) (0, 0, 0)) (vsub (1, 0, 0) (0, 0, 0))
   \<and> products_keep_magnitude (vsub (0, 1, 0) (0, 0, 0)) (vsub (1, 0, 0) (0, 0, 0))
   \<and> products_keep_magnitude (vsub (1, 0, 0) (0, 0, 0)) (vsub (1, 0, 0) (0, 0, 0))
   \<and> point_to_line_dist_f64 (3, 0, 0) (0, 0, 0) (1, 0, 0) = Num 2
   \<and> point_to_line_dist_f64 (- 2, 0, 0) (0, 0, 0) (1, 0, 0) = Num 2
   \<and> point_to_line_dist_f64 (0, 0, 0) (0, 0, 0) (1, 0, 0) = Num 0
   \<and> (\<exists>d. point_to_line_dist_f64 (0, 1, 0) (0, 0, 0) (1, 0, 0) = Num d
         \<and> d \<le> np_linalg_norm (vsub (0, 1, 0) (vadd (0, 0, 0) (vscale (1 / 2) (vsub (1, 0, 0) (0, 0, 0))))))"
proof -
  have c: "coords_within (2 ^ 500) (3, 0, 0)" "coords_within (2 ^ 500) (0, 0, 0)"
    "coords_within (2 ^ 500) (1, 0, 0)" "coords_within (2 ^ 500) (- 2, 0, 0)"
    "coords_within (2 ^ 500) (0, 1, 0)"
    by (simp_all add: coords_within_def)
  have ne: "((0, 0, 0) :: vec3) \<noteq> (1, 0, 0)" by simp
  have k: "products_keep_magnitude (vsub (3, 0, 0) (0, 0, 0)) (vsub (1, 0, 0) (0, 0, 0))"
    "products_keep_magnitude (vsub (- 2, 0, 0) (0, 0, 0)) (vsub (1, 0, 0) (0, 0, 0))"
    "products_keep_magnitude (vsub (0, 0, 0) (0, 0, 0)) (vsub (1, 0, 0) (0, 0, 0))"
    "products_keep_magnitude (vsub (0, 1, 0) (0, 0, 0)) (vsub (1, 0, 0) (0, 0, 0))"
    "products_keep_magnitude (vsub (1, 0, 0) (0, 0, 0)) (vsub (1, 0, 0) (0, 0, 0))"
    by (simp_all add: products_keep_magnitude_def keeps_magnitude_def float64_underflow_def)
  obtain t :: real and d where d: "point_to_line_dist_f64 (3, 0, 0) (0, 0, 0) (1, 0, 0) = Num d"
    and far: "\<forall>s. (3, 0, 0) = vadd (0, 0, 0) (vscale s (vsub (1, 0, 0) (0, 0, 0))) \<and> 1 < s \<longrightarrow>
            d = np_linalg_norm (vsub (3, 0, 0) (1, 0, 0))"
    using point_to_line_dist_f64_closest [OF c(1,2,3) ne k(1,5)] by blast
  from far [rule_format, of 3] have "d = 2"
    by (simp add: np_linalg_norm_def)
  obtain t2 :: real and d2 where d2: "point_to_line_dist_f64 (- 2, 0, 0) (0, 0, 0) (1, 0, 0) = Num d2"
    and before: "\<forall>s. (- 2, 0, 0) = vadd (0, 0, 0) (vscale s (vsub (1, 0, 0) (0, 0, 0))) \<and> s < 0 \<longrightarrow>
            d2 = np_linalg_norm (vsub (- 2, 0, 0) (0, 0, 0))"
    using point_to_line_dist_f64_closest [OF c(4,2,3) ne k(2,5)] by blast
  from before [rule_format, of "- 2"] have "d2 = 2"
    by (simp add: np_linalg_norm_def)
  obtain t' :: real and d' where d': "point_to_line_dist_f64 (0, 0, 0) (0, 0, 0) (1, 0, 0) = Num d'"
    and "d' = 0"
    using point_to_line_dist_f64_closest [OF c(2,2,3) ne k(3,5)] by blast
  obtain t3 :: real and d3 where d3: "point_to_line_dist_f64 (0, 1, 0) (0, 0, 0) (1, 0, 0) = Num d3"
    and least: "\<forall>s. 0 \<le> s \<and> s \<le> 1 \<longrightarrow>
            d3 \<le> np_linalg_norm (vsub (0, 1, 0) (vadd (0, 0, 0) (vscale s (vsub (1, 0, 0) (0, 0, 0)))))"
    using point_to_line_dist_f64_closest [OF c(5,2,3) ne k(4,5)] by blast
  from least [rule_format, of "1 / 2"]
  have "d3 \<le> np_linalg_norm (vsub (0, 1, 0) (vadd (0, 0, 0) (vscale (1 / 2) (vsub (1, 0, 0) (0, 0, 0)))))"
    by simp
  with c ne k d \<open>d = 2\<close> d2 \<open>d2 = 2\<close> d' \<open>d' = 0\<close> d3 show ?thesis by blast
qed

text \<open>
  Claim C7. The claim asks for a guard on the zero-length segment that returns the
  distance from \<open>p\<close> to \<open>a\<close>. The code has no guard: it divides 0 by 0 and returns nan,
  for every \<open>p\<close>; at \<open>p = (1, 0, 0)\<close>, \<open>a = b = (0, 0, 0)\<close> the distance asked for is 1.
\<close>

theorem point_to_line_dist_zero_length:
  "np_true_divide (np_dot (vsub p a) (vsub a a)) (np_dot (vsub a a) (vsub a a)) = NaN
   \<and> point_to_line_dist p a a = NaN
   \<and> point_to_line_dist (1, 0, 0) (0, 0, 0) (0, 0, 0) = NaN
   \<and> np_linalg_norm (vsub (1, 0, 0) (0, 0, 0)) = 1
   \<and> point_to_line_dist (1, 0, 0) (0, 0, 0) (0, 0, 0) \<noteq> Num (np_linalg_norm (vsub (1, 0, 0) (0, 0, 0)))"
proof -
  have division: "np_true_divide (np_dot (vsub p a) (vsub a a)) (np_dot (vsub a a) (vsub a a)) = NaN"
    by (simp add: np_true_divide_def vsub_self np_dot_zero_right)
  have every: "point_to_line_dist q c c = NaN" for q c
    by (rule point_to_line_dist_degenerate)
  have expected: "np_linalg_norm (vsub (1, 0, 0) (0, 0, 0)) = 1"
    by (simp add: np_linalg_norm_def)
  from division every expected show ?thesis
    by simp
qed

section \<open>Oscillation transform: facts\<close>

lemma reheating_step_eq:
  "reheating_step grid epsilon omega delta_chi step (g, h) =
     (g\<lparr>normal_draws := (\<lambda>k. normal_draws g (Suc k))\<rparr>,
      h[grid := (h ! grid)\<lparr>cells := (\<lambda>idx.
          cells (h ! grid) idx * (1 + epsilon * cos (omega * (real step * 0.1)))
          + delta_chi * sin (omega * (real step * 0.1)) * normal_draws g 0 idx)\<rparr>])"
proof (cases "grid < length h")
  case True
  then show ?thesis
    by (simp add: reheating_step_def np_random_normal_def scalar_mul_def imul_def iadd_def)
next
  case False
  then show ?thesis
    by (simp add: reheating_step_def np_random_normal_def scalar_mul_def imul_def iadd_def
        Let_def list_update_beyond)
qed

lemma reheating_oscillations_nonpos:
  "num_steps \<le> 0 \<Longrightarrow> reheating_oscillations grid num_steps epsilon omega delta_chi st = (grid, st)"
  by (simp add: reheating_oscillations_def)

lemma reheating_oscillations_Suc:
  "0 \<le> M \<Longrightarrow>
   reheating_oscillations grid (M + 1) epsilon omega delta_chi st =
     (grid, reheating_step grid epsilon omega delta_chi (nat M)
        (snd (reheating_oscillations grid M epsilon omega delta_chi st)))"
  by (simp add: reheating_oscillations_def nat_add_distrib)

lemma fold_reheating_normal_draws:
  "normal_draws (fst (fold (reheating_step grid epsilon omega delta_chi) [0..<n] (g, h))) =
     (\<lambda>k. normal_draws g (k + n))"
proof (induction n)
  case 0
  then show ?case by simp
next
  case (Suc n)
  obtain g' h' where st: "fold (reheating_step grid epsilon omega delta_chi) [0..<n] (g, h) = (g', h')"
    by (cases "fold (reheating_step grid epsilon omega delta_chi) [0..<n] (g, h)")
  with Suc have "normal_draws g' = (\<lambda>k. normal_draws g (k + n))" by simp
  then show ?case
    by (simp add: st reheating_step_eq)
qed

text \<open>
  Claim C4. With zero steps the transform returns its state unchanged. A run of \<open>M + 1\<close>
  steps is the run of \<open>M\<close> steps followed by the update of step \<open>M\<close>, and a run of \<open>M\<close>
  steps takes exactly \<open>M\<close> arrays of normal draws from the random source. The update of
  step \<open>s\<close> first multiplies every cell by \<open>1 + epsilon * cos (omega * t)\<close>, with
  \<open>t = s * 0.1\<close>, then adds the cell's draw scaled by \<open>delta_chi * sin (omega * t)\<close>.
\<close>

theorem reheating_oscillations_sequential:
  "reheating_oscillations grid 0 epsilon omega delta_chi st = (grid, st)
   \<and> (0 \<le> M \<longrightarrow>
        reheating_oscillations grid (M + 1) epsilon omega delta_chi st =
          (grid, reheating_step grid epsilon omega delta_chi (nat M)
             (snd (reheating_oscillations grid M epsilon omega delta_chi st))))
   \<and> (0 \<le> M \<longrightarrow>
        normal_draws (fst (snd (reheating_oscillations grid M epsilon omega delta_chi (g, h)))) =
          (\<lambda>k. normal_draws g (k + nat M)))
   \<and> (grid < length h \<longrightarrow>
        (case reheating_step grid epsilon omega delta_chi s (g, h) of (g', h') \<Rightarrow>
           normal_draws g' = (\<lambda>k. normal_draws g (Suc k))
           \<and> length h' = length h
           \<and> side (h' ! grid) = side (h ! grid)
           \<and> (\<forall>idx. cells (h' ! grid) idx =
                 cells (h ! grid) idx * (1 + epsilon * cos (omega * (real s * 0.1)))
                 + delta_chi * sin (omega * (real s * 0.1)) * normal_draws g 0 idx)))"
proof (intro conjI impI)
  show "reheating_oscillations grid 0 epsilon omega delta_chi st = (grid, st)"
    by (rule reheating_oscillations_nonpos) simp
next
  assume "0 \<le> M"
  then show "reheating_oscillations grid (M + 1) epsilon omega delta_chi st =
          (grid, reheating_step grid epsilon omega delta_chi (nat M)
             (snd (reheating_oscillations grid M epsilon omega delta_chi st)))"
    by (rule reheating_oscillations_Suc)
next
  show "normal_draws (fst (snd (reheating_oscillations grid M epsilon omega delta_chi (g, h)))) =
          (\<lambda>k. normal_draws g (k + nat M))"
    by (simp add: reheating_oscillations_def fold_reheating_normal_draws)
next
  assume "grid < length h"
  then show "case reheating_step grid epsilon omega delta_chi s (g, h) of (g', h') \<Rightarrow>
           normal_draws g' = (\<lambda>k. normal_draws g (Suc k))
           \<and> length h' = length h
           \<and> side (h' ! grid) = side (h ! grid)
           \<and> (\<forall>idx. cells (h' ! grid) idx =
                 cells (h ! grid) idx * (1 + epsilon * cos (omega * (real s * 0.1)))
                 + delta_chi * sin (omega * (real s * 0.1)) * normal_draws g 0 idx)"
    by (simp add: reheating_step_eq)
qed

theorem reheating_oscillations_sequential_witness:
  "(0 :: int) \<le> 0 \<and> (0 :: nat) < length [\<lparr>side = 1, cells = (\<lambda>_. 7)\<rparr>]
   \<and> cells (snd (snd (reheating_oscillations 0 (0 + 1) 2 0 3
        (\<lparr>uniform_draws = (\<lambda>_. 0), normal_draws = (\<lambda>_ _. 5)\<rparr>,
         [\<lparr>side = 1, cells = (\<lambda>_. 7)\<rparr>]))) ! 0) (0, 0, 0) = 21"
  using reheating_oscillations_sequential [of 0 2 0 3
      "(\<lparr>uniform_draws = (\<lambda>_. 0), normal_draws = (\<lambda>_ _. 5)\<rparr>, [\<lparr>side = 1, cells = (\<lambda>_. 7)\<rparr>])"
      0 "\<lparr>uniform_draws = (\<lambda>_. 0), normal_draws = (\<lambda>_ _. 5)\<rparr>"
      "[\<lparr>side = 1, cells = (\<lambda>_. 7)\<rparr>]" 0]
  by (auto split: prod.splits)

text \<open>
  Claim C10. At step 0 the injection is the zero array whatever the draws are, so one
  step returns the input multiplied by \<open>1 + epsilon\<close>: the heap after the call does not
  depend on the values drawn.
\<close>

theorem reheating_first_step_no_injection:
  "cells (scalar_mul (delta_chi * sin (omega * (real (0 :: nat) * 0.1))) noise) = (\<lambda>_. 0)
   \<and> reheating_oscillations grid 1 epsilon omega delta_chi (g, h) =
       (grid, g\<lparr>normal_draws := (\<lambda>k. normal_draws g (Suc k))\<rparr>,
        h[grid := (h ! grid)\<lparr>cells := (\<lambda>idx. cells (h ! grid) idx * (1 + epsilon))\<rparr>])"
proof -
  have scale: "delta_chi * sin (omega * (real (0 :: nat) * 0.1)) = 0"
    by simp
  have gain: "1 + epsilon * cos (omega * (real (0 :: nat) * 0.1)) = 1 + epsilon"
    by simp
  have injection: "cells (scalar_mul (delta_chi * sin (omega * (real (0 :: nat) * 0.1))) noise) = (\<lambda>_. 0)"
    unfolding scale by (simp add: scalar_mul_def)
  have one: "reheating_oscillations grid 1 epsilon omega delta_chi (g, h) =
               (grid, reheating_step grid epsilon omega delta_chi 0 (g, h))"
    by (simp add: reheating_oscillations_def)
  have step: "reheating_step grid epsilon omega delta_chi 0 (g, h) =
       (g\<lparr>normal_draws := (\<lambda>k. normal_draws g (Suc k))\<rparr>,
        h[grid := (h ! grid)\<lparr>cells := (\<lambda>idx. cells (h ! grid) idx * (1 + epsilon))\<rparr>])"
    unfolding reheating_step_eq scale gain by simp
  from injection one step show ?thesis
    by simp
qed

section \<open>Stretch transform: facts\<close>

lemma for_each_total:
  "(\<And>x s. x \<in> set xs \<Longrightarrow> body x s = Inr (f x s)) \<Longrightarrow> for_each xs body s = Inr (fold f xs s)"
  by (induction xs arbitrary: s) simp_all

text \<open>The three nested loops of writes fill a box of cells and leave the others.\<close>

lemma fold_setitem_k:
  "fold (\<lambda>k a. setitem a (i, j, k) (V k)) [0..<n] a =
     a\<lparr>cells := (\<lambda>(i', j', k'). if i' = i \<and> j' = j \<and> k' < n then V k' else cells a (i', j', k'))\<rparr>"
proof (induction n)
  case 0
  then show ?case by simp
next
  case (Suc n)
  then show ?case
    by (auto simp: setitem_def fun_eq_iff less_Suc_eq)
qed

lemma fold_setitem_jk:
  "fold (\<lambda>j. fold (\<lambda>k a. setitem a (i, j, k) (V j k)) [0..<n]) [0..<m] a =
     a\<lparr>cells := (\<lambda>(i', j', k'). if i' = i \<and> j' < m \<and> k' < n then V j' k' else cells a (i', j', k'))\<rparr>"
proof (induction m)
  case 0
  then show ?case by simp
next
  case (Suc m)
  then show ?case
    by (auto simp: fold_setitem_k fun_eq_iff less_Suc_eq)
qed

lemma fold_setitem_ijk:
  "fold (\<lambda>i. fold (\<lambda>j. fold (\<lambda>k a. setitem a (i, j, k) (V i j k)) [0..<n]) [0..<m]) [0..<l] a =
     a\<lparr>cells := (\<lambda>(i', j', k'). if i' < l \<and> j' < m \<and> k' < n then V i' j' k' else cells a (i', j', k'))\<rparr>"
proof (induction l)
  case 0
  then show ?case by simp
next
  case (Suc l)
  then show ?case
    by (auto simp: fold_setitem_jk fun_eq_iff less_Suc_eq)
qed

lemma py_int_div:
  assumes "0 < k"
  shows "py_int (real i / real k) = int (i div k)"
  by (simp add: py_int_def floor_divide_of_nat_eq)

lemma np_index_in_range: "i < n \<Longrightarrow> np_index n (int i) = Inr i"
  by (simp add: np_index_def)

lemma getitem_in_range:
  "i < side a \<Longrightarrow> j < side a \<Longrightarrow> l < side a \<Longrightarrow>
   getitem a (int i) (int j) (int l) = Inr (cells a (i, j, l))"
  by (simp add: getitem_def np_index_in_range)

lemma div_less_side: "0 < k \<Longrightarrow> i < n * k \<Longrightarrow> i div k < (n :: nat)"
  by (simp add: less_mult_imp_div_less)

text \<open>The range of float64 and the conversions that stay inside it.\<close>

lemma float64_overflow_gt: "2 ^ 1022 < float64_overflow"
  by (simp add: float64_overflow_def)


lemma float64_underflow_lt: "float64_underflow < 1 / 2 ^ 1022"
  by (simp add: float64_underflow_def)

lemma py_float_in_range: "\<bar>real_of_int n\<bar> < float64_overflow \<Longrightarrow> py_float n = Inr (of_int n)"
  by (simp add: py_float_def)

lemma py_float_nat_in_range: "real i < float64_overflow \<Longrightarrow> py_float (int i) = Inr (real i)"
  by (simp add: py_float_def)

text \<open>
  Line 49 on a positive factor whose power stays in range: the dilution is \<open>1 / k ^ p\<close>.
\<close>

lemma dilution_in_range:
  assumes k: "0 < k" "real_of_int k < float64_overflow"
    and pos: "0 \<le> p \<Longrightarrow> real_of_int k ^ nat p < float64_overflow"
    and neg: "p < 0 \<Longrightarrow> real_of_int k ^ nat (- p) \<le> 2 ^ 1022 \<and> - float64_overflow < real_of_int p"
  shows "\<exists>pw. py_pow k p = Inr pw \<and> py_float_truediv 1 pw = Inr (1 / (of_int k powi p))"
proof (cases "0 \<le> p")
  case True
  let ?y = "real_of_int k ^ nat p"
  have one: "1 \<le> ?y"
    using k(1) by (intro one_le_power) simp
  have conv: "py_float (k ^ nat p) = Inr ?y"
    using pos [OF True] one by (simp add: py_float_def)
  have "\<bar>1 / ?y\<bar> \<le> 1"
    using one by simp
  also have "\<dots> < float64_overflow"
    by (simp add: float64_overflow_def)
  finally have small: "\<not> float64_overflow \<le> \<bar>1 / ?y\<bar>"
    by simp
  have "py_float_truediv 1 (PyInt (k ^ nat p)) = Inr (1 / ?y)"
    using one small k(1) unfolding py_float_truediv_def py_num.case conv by simp
  moreover have "real_of_int k powi p = ?y"
    using True by (simp add: power_int_def)
  ultimately show ?thesis
    using True by (simp add: py_pow_def)
next
  case False
  then have p: "p < 0" by simp
  let ?y = "real_of_int k ^ nat (- p)"
  have one: "1 \<le> ?y"
    using k(1) by (intro one_le_power) simp
  have le: "?y \<le> 2 ^ 1022" and pb: "- float64_overflow < real_of_int p"
    using neg [OF p] by simp_all
  have v: "real_of_int k powi p = 1 / ?y"
    using p by (simp add: power_int_def field_simps power_inverse)
  have "1 / (2 :: real) ^ 1022 \<le> 1 / ?y"
    using one le by (intro divide_left_mono) simp_all
  with float64_underflow_lt have big: "float64_underflow < 1 / ?y"
    by linarith
  have vpos: "0 < 1 / ?y"
    using one by simp
  have conv_k: "py_float k = Inr (real_of_int k)"
    using k by (simp add: py_float_def)
  have conv_p: "py_float p = Inr (real_of_int p)"
    using p pb by (simp add: py_float_def)
  have "\<not> \<bar>real_of_int k powi p\<bar> \<le> float64_underflow"
    unfolding v using big vpos by simp
  then have pw: "py_pow k p = Inr (PyFloat (1 / ?y))"
    using p k(1) by (simp add: py_pow_def conv_k conv_p v)
  have "\<bar>1 / (1 / ?y)\<bar> = ?y"
    using one by simp
  with le float64_overflow_gt have small: "\<not> float64_overflow \<le> \<bar>1 / (1 / ?y)\<bar>"
    by linarith
  have "py_float_truediv 1 (PyFloat (1 / ?y)) = Inr (1 / (1 / ?y))"
    using vpos small k(1) unfolding py_float_truediv_def py_num.case by simp
  with pw show ?thesis
    unfolding v by blast
qed

lemma stretch_loops:
  assumes K: "0 < K" and scale: "scale = real K"
    and range: "real (side src * K) < float64_overflow"
  shows "for_each [0..<side src * K] (\<lambda>i a.
            case py_float (int i) of Inl e \<Rightarrow> Inl (Raise e) | Inr fi \<Rightarrow>
            for_each [0..<side src * K] (\<lambda>j a.
              case py_float (int j) of Inl e \<Rightarrow> Inl (Raise e) | Inr fj \<Rightarrow>
              for_each [0..<side src * K] (\<lambda>k a.
                case py_float (int k) of Inl e \<Rightarrow> Inl (Raise e) | Inr fk \<Rightarrow>
                case getitem src (py_int (fi / scale)) (py_int (fj / scale))
                       (py_int (fk / scale)) of
                  Inl e \<Rightarrow> Inl (Raise e)
                | Inr v \<Rightarrow> Inr (setitem a (i, j, k) (v * dilution))) a) a)
            (zeros (side src * K))
         = Inr (stretch_spec src K dilution)"
proof -
  let ?n = "side src * K"
  let ?V = "\<lambda>i j k. cells src (i div K, j div K, k div K) * dilution"
  have conv: "py_float (int i) = Inr (real i)" if "i < ?n" for i
  proof (rule py_float_nat_in_range)
    from that have "real i < real ?n" by (simp only: of_nat_less_iff)
    with range show "real i < float64_overflow" by linarith
  qed
  have inner: "for_each [0..<?n] (\<lambda>k a.
                case py_float (int k) of Inl e \<Rightarrow> Inl (Raise e) | Inr fk \<Rightarrow>
                case getitem src (py_int (real i / scale)) (py_int (real j / scale))
                       (py_int (fk / scale)) of
                  Inl e \<Rightarrow> Inl (Raise e)
                | Inr v \<Rightarrow> Inr (setitem a (i, j, k) (v * dilution))) a
             = Inr (fold (\<lambda>k a. setitem a (i, j, k) (?V i j k)) [0..<?n] a)"
    if "i < ?n" "j < ?n" for i j a
  proof (rule for_each_total)
    fix x s assume "x \<in> set [0..<?n]"
    then have "x < ?n" by simp
    with that K show "(case py_float (int x) of Inl e \<Rightarrow> Inl (Raise e) | Inr fk \<Rightarrow>
                case getitem src (py_int (real i / scale)) (py_int (real j / scale))
                       (py_int (fk / scale)) of
                  Inl e \<Rightarrow> Inl (Raise e)
                | Inr v \<Rightarrow> Inr (setitem s (i, j, x) (v * dilution)))
            = Inr (setitem s (i, j, x) (?V i j x))"
      by (simp add: conv scale py_int_div getitem_in_range div_less_side)
  qed
  have middle: "for_each [0..<?n] (\<lambda>j a.
              case py_float (int j) of Inl e \<Rightarrow> Inl (Raise e) | Inr fj \<Rightarrow>
              for_each [0..<?n] (\<lambda>k a.
                case py_float (int k) of Inl e \<Rightarrow> Inl (Raise e) | Inr fk \<Rightarrow>
                case getitem src (py_int (real i / scale)) (py_int (fj / scale))
                       (py_int (fk / scale)) of
                  Inl e \<Rightarrow> Inl (Raise e)
                | Inr v \<Rightarrow> Inr (setitem a (i, j, k) (v * dilution))) a) a
             = Inr (fold (\<lambda>j. fold (\<lambda>k a. setitem a (i, j, k) (?V i j k)) [0..<?n]) [0..<?n] a)"
    if "i < ?n" for i a
  proof (rule for_each_total)
    fix x s assume "x \<in> set [0..<?n]"
    then have x: "x < ?n" by simp
    show "(case py_float (int x) of Inl e \<Rightarrow> Inl (Raise e) | Inr fj \<Rightarrow>
              for_each [0..<?n] (\<lambda>k a.
                case py_float (int k) of Inl e \<Rightarrow> Inl (Raise e) | Inr fk \<Rightarrow>
                case getitem src (py_int (real i / scale)) (py_int (fj / scale))
                       (py_int (fk / scale)) of
                  Inl e \<Rightarrow> Inl (Raise e)
                | Inr v \<Rightarrow> Inr (setitem a (i, x, k) (v * dilution))) s)
            = Inr (fold (\<lambda>k a. setitem a (i, x, k) (?V i x k)) [0..<?n] s)"
      unfolding conv [OF x] sum.case by (rule inner [OF that x])
  qed
  have outer: "for_each [0..<?n] (\<lambda>i a.
            case py_float (int i) of Inl e \<Rightarrow> Inl (Raise e) | Inr fi \<Rightarrow>
            for_each [0..<?n] (\<lambda>j a.
              case py_float (int j) of Inl e \<Rightarrow> Inl (Raise e) | Inr fj \<Rightarrow>
              for_each [0..<?n] (\<lambda>k a.
                case py_float (int k) of Inl e \<Rightarrow> Inl (Raise e) | Inr fk \<Rightarrow>
                case getitem src (py_int (fi / scale)) (py_int (fj / scale))
                       (py_int (fk / scale)) of
                  Inl e \<Rightarrow> Inl (Raise e)
                | Inr v \<Rightarrow> Inr (setitem a (i, j, k) (v * dilution))) a) a) a
           = Inr (fold (\<lambda>i. fold (\<lambda>j. fold (\<lambda>k a. setitem a (i, j, k) (?V i j k)) [0..<?n]) [0..<?n])
                    [0..<?n] a)" for a
  proof (rule for_each_total)
    fix x s assume "x \<in> set [0..<?n]"
    then have x: "x < ?n" by simp
    show "(case py_float (int x) of Inl e \<Rightarrow> Inl (Raise e) | Inr fi \<Rightarrow>
            for_each [0..<?n] (\<lambda>j a.
              case py_float (int j) of Inl e \<Rightarrow> Inl (Raise e) | Inr fj \<Rightarrow>
              for_each [0..<?n] (\<lambda>k a.
                case py_float (int k) of Inl e \<Rightarrow> Inl (Raise e) | Inr fk \<Rightarrow>
                case getitem src (py_int (fi / scale)) (py_int (fj / scale))
                       (py_int (fk / scale)) of
                  Inl e \<Rightarrow> Inl (Raise e)
                | Inr v \<Rightarrow> Inr (setitem a (x, j, k) (v * dilution))) a) s)
            = Inr (fold (\<lambda>j. fold (\<lambda>k a. setitem a (x, j, k) (?V x j k)) [0..<?n]) [0..<?n] s)"
      unfolding conv [OF x] sum.case by (rule middle [OF x])
  qed
  show ?thesis
    unfolding outer fold_setitem_ijk
    by (simp add: stretch_spec_def zeros_def fun_eq_iff)
qed

lemma inflation_stretch_eq:
  assumes "grid < length h" "0 < side (h ! grid)" "0 < k"
    and size: "real (side (h ! grid)) * real_of_int k < float64_overflow"
    and pos: "0 \<le> p \<Longrightarrow> real_of_int k ^ nat p < float64_overflow"
    and neg: "p < 0 \<Longrightarrow> real_of_int k ^ nat (- p) \<le> 2 ^ 1022 \<and> - float64_overflow < real_of_int p"
  shows "inflation_stretch grid k p h =
           Inr (length h, h @ [stretch_spec (h ! grid) (nat k) (1 / (of_int k powi p))])"
proof -
  let ?N = "side (h ! grid)"
  have new_size: "nat (int ?N * k) = ?N * nat k"
    using assms(3) by (simp add: nat_mult_distrib)
  have nonneg: "\<not> int ?N * k < 0"
    using assms(3) by (simp add: mult_less_0_iff)
  have "1 * real_of_int k \<le> real ?N * real_of_int k"
    using assms(2,3) by (intro mult_right_mono) simp_all
  with size have kb: "real_of_int k < float64_overflow"
    by simp
  have scale: "py_int_truediv (int ?N * k) (int ?N) = Inr (real (nat k))"
    using assms(2,3) kb by (simp add: py_int_truediv_def)
  obtain pw where pw: "py_pow k p = Inr pw"
    and dil: "py_float_truediv 1 pw = Inr (1 / (of_int k powi p))"
    using dilution_in_range [OF assms(3) kb pos neg] by blast
  have src: "(h @ [zeros (?N * nat k)]) ! grid = h ! grid"
    using assms(1) by (simp add: nth_append)
  have range: "real (?N * nat k) < float64_overflow"
    using size assms(3) by simp
  have loops: "for_each [0..<?N * nat k] (\<lambda>i a.
            case py_float (int i) of Inl e \<Rightarrow> Inl (Raise e) | Inr fi \<Rightarrow>
            for_each [0..<?N * nat k] (\<lambda>j a.
              case py_float (int j) of Inl e \<Rightarrow> Inl (Raise e) | Inr fj \<Rightarrow>
              for_each [0..<?N * nat k] (\<lambda>ka a.
                case py_float (int ka) of Inl e \<Rightarrow> Inl (Raise e) | Inr fk \<Rightarrow>
                case getitem (h ! grid) (py_int (fi / real (nat k)))
                       (py_int (fj / real (nat k))) (py_int (fk / real (nat k))) of
                  Inl e \<Rightarrow> Inl (Raise e)
                | Inr v \<Rightarrow> Inr (setitem a (i, j, ka) (v * (1 / (of_int k powi p))))) a) a)
            (zeros (?N * nat k))
         = Inr (stretch_spec (h ! grid) (nat k) (1 / (of_int k powi p)))"
    by (rule stretch_loops [OF _ refl range]) (use assms(3) in simp)
  show ?thesis
    unfolding inflation_stretch_def Let_def np_zeros_def prod.case
    by (simp only: nonneg if_False new_size scale pw dil sum.case src loops
        nth_append_length list_update_length cong: sum.case_cong)
qed

text \<open>
  Outside those conditions the call can stop: on an empty field, on a negative factor,
  and where the power leaves the range of float64 (the int power too large for a float,
  the float power underflowing to zero, or its inverse an infinity).
\<close>

lemma inflation_stretch_empty_field:
  "side (h ! grid) = 0 \<Longrightarrow> inflation_stretch grid k p h = Inl (Raise ZeroDivisionError)"
  by (simp add: inflation_stretch_def np_zeros_def py_int_truediv_def)

lemma inflation_stretch_negative_factor:
  "0 < side (h ! grid) \<Longrightarrow> k < 0 \<Longrightarrow> inflation_stretch grid k p h = Inl (Raise ValueError)"
  by (simp add: inflation_stretch_def mult_less_0_iff)



lemma inflation_stretch_dilution_infinite:
  assumes "0 < side (h ! grid)" "0 < k" "real_of_int k < float64_overflow" "p < 0"
    and "- float64_overflow < real_of_int p"
    and "real_of_int k ^ nat (- p) < 2 ^ 1075"
    and "float64_overflow \<le> real_of_int k ^ nat (- p)"
  shows "inflation_stretch grid k p h = Inl NonFinite"
proof -
  let ?y = "real_of_int k ^ nat (- p)"
  have nonneg: "\<not> int (side (h ! grid)) * k < 0"
    using assms(2) by (simp add: mult_less_0_iff)
  have scale: "py_int_truediv (int (side (h ! grid)) * k) (int (side (h ! grid))) = Inr (real_of_int k)"
    using assms(1,2,3) by (simp add: py_int_truediv_def)
  have v: "real_of_int k powi p = 1 / ?y"
    using assms(4) by (simp add: power_int_def field_simps power_inverse)
  have ypos: "0 < ?y"
    using assms(2) by simp
  have "1 / 2 ^ 1075 < 1 / ?y"
    using assms(6) ypos by (intro divide_strict_left_mono) simp_all
  with ypos have "\<not> \<bar>real_of_int k powi p\<bar> \<le> float64_underflow"
    unfolding v by (simp add: float64_underflow_def)
  moreover have conv_k: "py_float k = Inr (real_of_int k)"
    using assms(2,3) by (simp add: py_float_def)
  moreover have conv_p: "py_float p = Inr (real_of_int p)"
    using assms(4,5) by (simp add: py_float_def)
  ultimately have pw: "py_pow k p = Inr (PyFloat (1 / ?y))"
    using assms(2,4) by (simp add: py_pow_def v)
  have "\<bar>1 / (1 / ?y)\<bar> = ?y"
    using ypos by simp
  with assms(7) have "float64_overflow \<le> \<bar>1 / (1 / ?y)\<bar>"
    by simp
  with ypos have dil: "py_float_truediv 1 (PyFloat (1 / ?y)) = Inl NonFinite"
    using assms(2) unfolding py_float_truediv_def py_num.case by simp
  show ?thesis
    unfolding inflation_stretch_def Let_def np_zeros_def prod.case
    by (simp add: nonneg scale pw dil del: of_int_mult of_nat_mult)
qed



lemma inflation_stretch_fresh:
  assumes "inflation_stretch grid k p h = Inr (r', h')"
  shows "r' = length h \<and> (\<exists>filled. h' = h @ [filled])"
  using assms
  unfolding inflation_stretch_def Let_def np_zeros_def
  by (auto split: if_splits sum.splits)

lemma fold_reheating_frame:
  "length (snd (fold (reheating_step grid epsilon omega delta_chi) [0..<n] (g, h))) = length h
   \<and> (\<forall>r. r \<noteq> grid \<longrightarrow>
         snd (fold (reheating_step grid epsilon omega delta_chi) [0..<n] (g, h)) ! r = h ! r)
   \<and> side (snd (fold (reheating_step grid epsilon omega delta_chi) [0..<n] (g, h)) ! grid) =
       side (h ! grid)"
proof (induction n)
  case 0
  then show ?case by simp
next
  case (Suc n)
  obtain g' h' where st: "fold (reheating_step grid epsilon omega delta_chi) [0..<n] (g, h) = (g', h')"
    by (cases "fold (reheating_step grid epsilon omega delta_chi) [0..<n] (g, h)")
  with Suc have IH: "length h' = length h" "\<forall>r. r \<noteq> grid \<longrightarrow> h' ! r = h ! r"
    "side (h' ! grid) = side (h ! grid)"
    by simp_all
  show ?case
  proof (cases "grid < length h")
    case True
    with IH show ?thesis by (simp add: st reheating_step_eq)
  next
    case False
    with IH show ?thesis by (simp add: st reheating_step_eq list_update_beyond)
  qed
qed







text \<open>
  Claim C9, as stated, fails for the stretch transform: on the one-cell field holding 1,
  with factor 2 and power 1, the array passed in still holds 1 after the call, and the
  transformed value 1/2 is in another, new array.
\<close>

theorem inflation_stretch_not_in_place:
  "inflation_stretch 0 2 1 [\<lparr>side = 1, cells = (\<lambda>_. 1)\<rparr>] =
     Inr (1, [\<lparr>side = 1, cells = (\<lambda>_. 1)\<rparr>, stretch_spec \<lparr>side = 1, cells = (\<lambda>_. 1)\<rparr> 2 (1 / 2)])
   \<and> cells ([\<lparr>side = 1, cells = (\<lambda>_. 1)\<rparr>, stretch_spec \<lparr>side = 1, cells = (\<lambda>_. 1)\<rparr> 2 (1 / 2)] ! 0)
        (0, 0, 0) = 1
   \<and> cells ([\<lparr>side = 1, cells = (\<lambda>_. 1)\<rparr>, stretch_spec \<lparr>side = 1, cells = (\<lambda>_. 1)\<rparr> 2 (1 / 2)] ! 1)
        (0, 0, 0) = 1 / 2"
proof -
  let ?h = "[\<lparr>side = 1, cells = (\<lambda>_. 1 :: real)\<rparr>]"
  have pre: "0 < length ?h" "0 < side (?h ! 0)" "(0 :: int) < 2"
    "real (side (?h ! 0)) * real_of_int 2 < float64_overflow"
    by (simp_all add: float64_overflow_def)
  have "inflation_stretch 0 2 1 ?h =
          Inr (length ?h, ?h @ [stretch_spec (?h ! 0) (nat 2) (1 / (of_int 2 powi 1))])"
    by (rule inflation_stretch_eq [OF pre]) (simp_all add: float64_overflow_def)
  then show ?thesis
    by (simp add: stretch_spec_def)
qed

text \<open>
  Claim C9, amended. The oscillation transform works in place: it returns the reference
  it was given, leaves every other array as it was, and after a step the array passed
  in holds the updated cells. The stretch transform does not: whenever it returns, its
  result is a new reference and every array of the heap before the call, the input among
  them, is unchanged.
\<close>

theorem transforms_mutation:
  "fst (reheating_oscillations grid M epsilon omega delta_chi (g, h)) = grid
   \<and> (\<forall>r. r \<noteq> grid \<longrightarrow>
         snd (snd (reheating_oscillations grid M epsilon omega delta_chi (g, h))) ! r = h ! r)
   \<and> (grid < length h \<longrightarrow>
        (\<forall>idx. cells (snd (reheating_step grid epsilon omega delta_chi s (g, h)) ! grid) idx =
           cells (h ! grid) idx * (1 + epsilon * cos (omega * (real s * 0.1)))
           + delta_chi * sin (omega * (real s * 0.1)) * normal_draws g 0 idx))
   \<and> (inflation_stretch grid k p h = Inr (r', h') \<longrightarrow>
        r' = length h \<and> length h' = Suc (length h) \<and> take (length h) h' = h
        \<and> (grid < length h \<longrightarrow> h' ! grid = h ! grid))"
proof (intro conjI impI allI)
  assume "inflation_stretch grid k p h = Inr (r', h')"
  from inflation_stretch_fresh [OF this]
  obtain filled where r': "r' = length h" and h': "h' = h @ [filled]" by blast
  show "r' = length h" by (rule r')
  show "length h' = Suc (length h)" by (simp add: h')
  show "take (length h) h' = h" by (simp add: h')
  show "h' ! grid = h ! grid" if "grid < length h"
    using that by (simp add: h' nth_append)
qed (simp_all add: reheating_oscillations_def fold_reheating_frame reheating_step_eq)

theorem transforms_mutation_witness:
  "(0 :: nat) < length [\<lparr>side = 1, cells = (\<lambda>_. 1)\<rparr>, \<lparr>side = 2, cells = (\<lambda>_. 4)\<rparr>]
   \<and> (1 :: nat) \<noteq> 0
   \<and> inflation_stretch 0 2 1 [\<lparr>side = 1, cells = (\<lambda>_. 1)\<rparr>, \<lparr>side = 2, cells = (\<lambda>_. 4)\<rparr>] =
       Inr (2, [\<lparr>side = 1, cells = (\<lambda>_. 1)\<rparr>, \<lparr>side = 2, cells = (\<lambda>_. 4)\<rparr>,
                stretch_spec \<lparr>side = 1, cells = (\<lambda>_. 1)\<rparr> 2 (1 / 2)])
   \<and> [\<lparr>side = 1, cells = (\<lambda>_. 1)\<rparr>, \<lparr>side = 2, cells = (\<lambda>_. 4)\<rparr>,
        stretch_spec \<lparr>side = 1, cells = (\<lambda>_. 1)\<rparr> 2 (1 / 2)] ! 0 =
       [\<lparr>side = 1, cells = (\<lambda>_. 1)\<rparr>, \<lparr>side = 2, cells = (\<lambda>_. 4)\<rparr>] ! 0
   \<and> snd (snd (reheating_oscillations 0 1 2 0 3
        (\<lparr>uniform_draws = (\<lambda>_. 0), normal_draws = (\<lambda>_ _. 5)\<rparr>,
         [\<lparr>side = 1, cells = (\<lambda>_. 1)\<rparr>, \<lparr>side = 2, cells = (\<lambda>_. 4)\<rparr>]))) ! 1 =
       [\<lparr>side = 1, cells = (\<lambda>_. 1)\<rparr>, \<lparr>side = 2, cells = (\<lambda>_. 4)\<rparr>] ! 1
   \<and> cells (snd (reheating_step 0 2 0 3 0
        (\<lparr>uniform_draws = (\<lambda>_. 0), normal_draws = (\<lambda>_ _. 5)\<rparr>,
         [\<lparr>side = 1, cells = (\<lambda>_. 1)\<rparr>, \<lparr>side = 2, cells = (\<lambda>_. 4)\<rparr>])) ! 0) (0, 0, 0) = 3"
proof -
  let ?a = "\<lparr>side = 1, cells = (\<lambda>_. 1 :: real)\<rparr>"
  let ?b = "\<lparr>side = 2, cells = (\<lambda>_. 4 :: real)\<rparr>"
  have pre: "0 < length [?a, ?b]" "0 < side ([?a, ?b] ! 0)" "(0 :: int) < 2"
    "real (side ([?a, ?b] ! 0)) * real_of_int 2 < float64_overflow"
    by (simp_all add: float64_overflow_def)
  have "inflation_stretch 0 2 1 [?a, ?b] =
          Inr (length [?a, ?b], [?a, ?b] @ [stretch_spec ([?a, ?b] ! 0) (nat 2) (1 / (of_int 2 powi 1))])"
    by (rule inflation_stretch_eq [OF pre]) (simp_all add: float64_overflow_def)
  then have run: "inflation_stretch 0 2 1 [?a, ?b] = Inr (2, [?a, ?b, stretch_spec ?a 2 (1 / 2)])"
    by simp
  note inst = transforms_mutation [of 0 1 2 0 3
        "\<lparr>uniform_draws = (\<lambda>_. 0), normal_draws = (\<lambda>_ _. 5)\<rparr>" "[?a, ?b]" 0 2 1 2
        "[?a, ?b, stretch_spec ?a 2 (1 / 2)]"]
  from inst have other: "snd (snd (reheating_oscillations 0 1 2 0 3
        (\<lparr>uniform_draws = (\<lambda>_. 0), normal_draws = (\<lambda>_ _. 5)\<rparr>, [?a, ?b]))) ! 1 = [?a, ?b] ! 1"
    by blast
  from inst pre(1) have step: "cells (snd (reheating_step 0 2 0 3 0
        (\<lparr>uniform_draws = (\<lambda>_. 0), normal_draws = (\<lambda>_ _. 5)\<rparr>, [?a, ?b])) ! 0) (0, 0, 0) = 3"
    by simp
  from inst run have input: "[?a, ?b, stretch_spec ?a 2 (1 / 2)] ! 0 = [?a, ?b] ! 0"
    by simp
  from pre(1) run input other step show ?thesis by simp
qed

section \<open>Foam generator: facts\<close>

lemma set_axis_range: "i \<in> set (axis_range sz c sigma) \<longleftrightarrow> neighbourhood sz c sigma i"
proof -
  let ?lo = "max 0 (py_int (c - 3 * sigma))"
  let ?hi = "min (int sz) (py_int (c + 3 * sigma + 1))"
  have "i \<in> nat ` {?lo..?hi - 1} \<longleftrightarrow> ?lo \<le> int i \<and> int i < ?hi"
  proof
    assume "i \<in> nat ` {?lo..?hi - 1}"
    then obtain z where "i = nat z" "?lo \<le> z" "z \<le> ?hi - 1" by auto
    then show "?lo \<le> int i \<and> int i < ?hi" by auto
  next
    assume "?lo \<le> int i \<and> int i < ?hi"
    then have "int i \<in> {?lo..?hi - 1}" by auto
    then have "nat (int i) \<in> nat ` {?lo..?hi - 1}" by (rule imageI)
    then show "i \<in> nat ` {?lo..?hi - 1}" by simp
  qed
  then show ?thesis
    by (simp add: axis_range_def neighbourhood_def)
qed

lemma distinct_axis_range: "distinct (axis_range sz c sigma)"
proof -
  have "inj_on nat {max 0 (py_int (c - 3 * sigma))..min (int sz) (py_int (c + 3 * sigma + 1)) - 1}"
    by (rule inj_onI) auto
  then show ?thesis
    by (simp add: axis_range_def distinct_map)
qed

lemma neighbourhood_in_grid: "neighbourhood sz c sigma i \<Longrightarrow> i < sz"
  by (simp add: neighbourhood_def)

lemma deposit_cells:
  "cells (deposit sigma x1 x2 chi (i, j, k) grid) idx =
     cells grid idx + (if idx = (i, j, k) then kernel_value sigma x1 x2 chi (i, j, k) else 0)"
  by (simp add: deposit_def kernel_value_def additem_def split: np_float.splits)

lemma deposit_side: "side (deposit sigma x1 x2 chi idx grid) = side grid"
  by (cases idx) (simp add: deposit_def additem_def split: np_float.splits prod.splits)

lemma fold_deposit_k:
  "distinct zs \<Longrightarrow>
   cells (fold (\<lambda>k. deposit sigma x1 x2 chi (i, j, k)) zs grid) (i', j', k') =
     cells grid (i', j', k')
     + (if i' = i \<and> j' = j \<and> k' \<in> set zs then kernel_value sigma x1 x2 chi (i', j', k') else 0)"
  by (induction zs arbitrary: grid) (auto simp: deposit_cells)

lemma fold_deposit_jk:
  "distinct ys \<Longrightarrow> distinct zs \<Longrightarrow>
   cells (fold (\<lambda>j. fold (\<lambda>k. deposit sigma x1 x2 chi (i, j, k)) zs) ys grid) (i', j', k') =
     cells grid (i', j', k')
     + (if i' = i \<and> j' \<in> set ys \<and> k' \<in> set zs
        then kernel_value sigma x1 x2 chi (i', j', k') else 0)"
  by (induction ys arbitrary: grid) (auto simp: fold_deposit_k)

lemma fold_deposit_ijk:
  "distinct xs \<Longrightarrow> distinct ys \<Longrightarrow> distinct zs \<Longrightarrow>
   cells (fold (\<lambda>i. fold (\<lambda>j. fold (\<lambda>k. deposit sigma x1 x2 chi (i, j, k)) zs) ys) xs grid)
       (i', j', k') =
     cells grid (i', j', k')
     + (if i' \<in> set xs \<and> j' \<in> set ys \<and> k' \<in> set zs
        then kernel_value sigma x1 x2 chi (i', j', k') else 0)"
  by (induction xs arbitrary: grid) (auto simp: fold_deposit_jk)

lemma fold_deposit_side:
  "side (fold (\<lambda>i. fold (\<lambda>j. fold (\<lambda>k. deposit sigma x1 x2 chi (i, j, k)) zs) ys) xs grid) =
     side grid"
proof -
  have k: "side (fold (\<lambda>k. deposit sigma x1 x2 chi (i, j, k)) zs a) = side a" for i j a
    by (induction zs arbitrary: a) (simp_all add: deposit_side)
  have jk: "side (fold (\<lambda>j. fold (\<lambda>k. deposit sigma x1 x2 chi (i, j, k)) zs) ys a) = side a" for i a
    by (induction ys arbitrary: a) (simp_all add: k)
  show ?thesis
    by (induction xs arbitrary: grid) (simp_all add: jk)
qed

lemma rasterize_sample_cells:
  "cells (rasterize_sample sz sigma x1 x2 chi t grid) idx =
     cells grid idx + sample_contribution sz sigma x1 x2 chi t idx"
proof -
  obtain c0 c1 c2 where c: "vadd x1 (vscale t (vsub x2 x1)) = (c0, c1, c2)"
    by (cases "vadd x1 (vscale t (vsub x2 x1))")
  obtain i j k where idx: "idx = (i, j, k)"
    by (cases idx)
  show ?thesis
    by (simp add: rasterize_sample_def sample_contribution_def c idx fold_deposit_ijk
        distinct_axis_range set_axis_range)
qed

lemma rasterize_sample_side: "side (rasterize_sample sz sigma x1 x2 chi t grid) = side grid"
  by (simp add: rasterize_sample_def fold_deposit_side split: prod.splits)

lemma fold_rasterize_cells:
  "cells (fold (rasterize_sample sz sigma x1 x2 chi) ts grid) idx =
     cells grid idx + (\<Sum>t\<leftarrow>ts. sample_contribution sz sigma x1 x2 chi t idx)"
  by (induction ts arbitrary: grid) (simp_all add: rasterize_sample_cells)

lemma fold_rasterize_side:
  "side (fold (rasterize_sample sz sigma x1 x2 chi) ts grid) = side grid"
  by (induction ts arbitrary: grid) (simp_all add: rasterize_sample_side)

lemma draw_point_eq:
  "draw_point sz g =
     ((real sz * uniform_draws g 0, real sz * uniform_draws g 1, real sz * uniform_draws g 2),
      g\<lparr>uniform_draws := (\<lambda>n. uniform_draws g (n + 3))\<rparr>)"
  by (simp add: draw_point_def np_random_uniform_def np_random_rand_def eval_nat_numeral)

lemma add_string_eq:
  "add_string sz bias sigma (grid, g) =
     (case drawn_segment sz bias g 0 of (x1, x2, chi) \<Rightarrow>
        (fold (rasterize_sample sz sigma x1 x2 chi) (np_linspace 0 1 10) grid,
         g\<lparr>uniform_draws := (\<lambda>n. uniform_draws g (n + 7))\<rparr>))"
  by (simp add: add_string_def draw_point_eq np_random_rand_def drawn_segment_def Let_def
      eval_nat_numeral)

lemma add_string_cells:
  "cells (fst (add_string sz bias sigma (grid, g))) idx =
     cells grid idx + segment_contribution sz sigma (drawn_segment sz bias g 0) idx"
  by (simp add: add_string_eq segment_contribution_def fold_rasterize_cells split: prod.splits)

lemma add_string_side: "side (fst (add_string sz bias sigma (grid, g))) = side grid"
  by (simp add: add_string_eq fold_rasterize_side split: prod.splits)

lemma add_string_rng:
  "snd (add_string sz bias sigma (grid, g)) = g\<lparr>uniform_draws := (\<lambda>n. uniform_draws g (n + 7))\<rparr>"
  by (simp add: add_string_eq split: prod.splits)

lemma drawn_segment_shift:
  "drawn_segment sz bias (g\<lparr>uniform_draws := (\<lambda>n. uniform_draws g (n + 7 * S))\<rparr>) 0 =
     drawn_segment sz bias g S"
  by (simp add: drawn_segment_def add.commute)

lemma fold_add_string:
  "fold (\<lambda>_. add_string sz bias sigma) [0..<S] (grid, g) = (grid', g') \<Longrightarrow>
     g' = g\<lparr>uniform_draws := (\<lambda>n. uniform_draws g (n + 7 * S))\<rparr>
     \<and> side grid' = side grid
     \<and> cells grid' idx =
         cells grid idx + (\<Sum>s<S. segment_contribution sz sigma (drawn_segment sz bias g s) idx)"
proof (induction S arbitrary: grid' g')
  case 0
  then show ?case by simp
next
  case (Suc S)
  obtain a ga where prev: "fold (\<lambda>_. add_string sz bias sigma) [0..<S] (grid, g) = (a, ga)"
    by (cases "fold (\<lambda>_. add_string sz bias sigma) [0..<S] (grid, g)")
  from Suc.IH [OF prev]
  have ga: "ga = g\<lparr>uniform_draws := (\<lambda>n. uniform_draws g (n + 7 * S))\<rparr>"
    and sa: "side a = side grid"
    and ca: "cells a idx =
         cells grid idx + (\<Sum>s<S. segment_contribution sz sigma (drawn_segment sz bias g s) idx)"
    by simp_all
  from Suc.prems prev have step: "add_string sz bias sigma (a, ga) = (grid', g')"
    by simp
  have "g' = snd (add_string sz bias sigma (a, ga))" "grid' = fst (add_string sz bias sigma (a, ga))"
    by (simp_all add: step)
  then show ?case
    by (simp add: add_string_rng add_string_side add_string_cells sa ca ga drawn_segment_shift
        add.assoc)
qed

lemma generate_vorticity_grid_eq:
  "generate_vorticity_grid sz S delta_chi sigma (g, h) = (r, g', h') \<Longrightarrow>
     r = length h
     \<and> g' = g\<lparr>uniform_draws := (\<lambda>n. uniform_draws g (n + 7 * S))\<rparr>
     \<and> length h' = Suc (length h) \<and> take (length h) h' = h
     \<and> side (h' ! r) = sz
     \<and> cells (h' ! r) idx =
         (\<Sum>s<S. segment_contribution sz sigma (drawn_segment sz (0.5 + delta_chi / 2) g s) idx)"
proof -
  assume run: "generate_vorticity_grid sz S delta_chi sigma (g, h) = (r, g', h')"
  obtain filled g1 where loop:
    "fold (\<lambda>_. add_string sz (0.5 + delta_chi / 2) sigma) [0..<S] (zeros sz, g) = (filled, g1)"
    by (cases "fold (\<lambda>_. add_string sz (0.5 + delta_chi / 2) sigma) [0..<S] (zeros sz, g)")
  from run loop have res: "r = length h" "g' = g1" "h' = h @ [filled]"
    by (simp_all add: generate_vorticity_grid_def np_zeros_def Let_def)
  from fold_add_string [OF loop, of idx] res show ?thesis
    by (simp add: zeros_def)
qed

lemma kernel_value_nondeg:
  assumes "x1 \<noteq> x2"
  shows "\<exists>d. point_to_line_dist (real i, real j, real k) x1 x2 = Num d
     \<and> kernel_value sigma x1 x2 chi (i, j, k) =
         (if d < 3 * sigma then chi * exp (- d\<^sup>2 / (2 * sigma\<^sup>2)) else 0)"
  by (simp add: kernel_value_def point_to_line_dist_nondeg [OF assms])

lemma segment_contribution_zero:
  assumes "kernel_value sigma x1 x2 chi idx = 0"
  shows "segment_contribution sz sigma (x1, x2, chi) idx = 0"
proof -
  have "sample_contribution sz sigma x1 x2 chi t idx = 0" for t
    using assms by (auto simp: sample_contribution_def split: prod.splits)
  then show ?thesis
    by (simp add: segment_contribution_def)
qed

text \<open>
  Claim C1, as stated, fails: a cell inside the cubic neighbourhood of a sample receives
  nothing when its distance to the segment is not below \<open>3 sigma\<close>. One string from
  \<open>(0, 0, 0)\<close> to \<open>(1, 0, 0)\<close> with handedness 1 on a grid of side 4, \<open>sigma = 1\<close>: the cell
  \<open>(3, 3, 3)\<close> lies in the neighbourhood of the sample at \<open>(0, 0, 0)\<close>, its distance to the
  segment is \<open>sqrt 22\<close>, the kernel value there is positive, and the cell is 0 in the
  generated field.
\<close>

theorem generate_vorticity_grid_guard:
  "cells (snd (snd (generate_vorticity_grid 4 1 0 1
       (\<lparr>uniform_draws = (\<lambda>n. if n = 3 then 1 / 4 else 0), normal_draws = (\<lambda>_ _. 0)\<rparr>, [])))
     ! fst (generate_vorticity_grid 4 1 0 1
       (\<lparr>uniform_draws = (\<lambda>n. if n = 3 then 1 / 4 else 0), normal_draws = (\<lambda>_ _. 0)\<rparr>, [])))
     (3, 3, 3) = 0
   \<and> drawn_segment 4 (0.5 + 0 / 2)
       \<lparr>uniform_draws = (\<lambda>n. if n = 3 then 1 / 4 else 0), normal_draws = (\<lambda>_ _. 0)\<rparr> 0 =
       ((0, 0, 0), (1, 0, 0), 1)
   \<and> vadd (0, 0, 0) (vscale 0 (vsub (1, 0, 0) (0, 0, 0))) = (0, 0, 0)
   \<and> neighbourhood 4 0 1 3
   \<and> point_to_line_dist (3, 3, 3) (0, 0, 0) (1, 0, 0) = Num (sqrt 22)
   \<and> 0 < 1 * exp (- (sqrt 22)\<^sup>2 / (2 * 1\<^sup>2))"
proof -
  let ?g = "\<lparr>uniform_draws = (\<lambda>n. if n = 3 then 1 / 4 else (0 :: real)),
             normal_draws = (\<lambda>_ _. 0 :: real)\<rparr>"
  have seg: "drawn_segment 4 (0.5 + 0 / 2) ?g 0 = ((0, 0, 0), (1, 0, 0), 1)"
    by (simp add: drawn_segment_def)
  have dist: "point_to_line_dist (3, 3, 3) (0, 0, 0) (1, 0, 0) = Num (sqrt 22)"
    by (simp add: point_to_line_dist_def np_true_divide_def np_clip_def np_linalg_norm_def)
  have far: "3 \<le> sqrt 22"
    by (rule real_le_rsqrt) simp
  have kernel: "kernel_value 1 (0, 0, 0) (1, 0, 0) 1 (3, 3, 3) = 0"
    using far by (simp add: kernel_value_def dist)
  obtain r g' h' where run: "generate_vorticity_grid 4 1 0 1 (?g, []) = (r, g', h')"
    by (cases "generate_vorticity_grid 4 1 0 1 (?g, [])")
  have "segment_contribution 4 1 (drawn_segment 4 (0.5 + 0 / 2) ?g 0) (3, 3, 3) = 0"
    unfolding seg by (rule segment_contribution_zero [OF kernel])
  with generate_vorticity_grid_eq [OF run, of "(3, 3, 3)"]
  have "cells (h' ! r) (3, 3, 3) = 0"
    by auto
  then have "cells (snd (snd (generate_vorticity_grid 4 1 0 1 (?g, [])))
               ! fst (generate_vorticity_grid 4 1 0 1 (?g, []))) (3, 3, 3) = 0"
    unfolding run by simp
  moreover have "neighbourhood 4 0 1 3"
    by (simp add: neighbourhood_def py_int_def)
  ultimately show ?thesis
    using seg dist by simp
qed

text \<open>
  Claim C1, amended. One sample of a segment adds to the cell \<open>(i, j, k)\<close> the kernel
  value of that cell when \<open>i\<close>, \<open>j\<close> and \<open>k\<close> lie in the index ranges around the sample
  point, and nothing otherwise. The ranges lie within \<open>[0, N)\<close>. For a segment with
  distinct end points the kernel value is \<open>chi * exp (- d\<^sup>2 / (2 sigma\<^sup>2))\<close>, \<open>d\<close> the distance
  from the cell to the whole segment, when \<open>d < 3 sigma\<close>, and 0 when it is not. The
  generator returns a new field of side \<open>N\<close> whose every cell is the sum, over the strings
  and over the ten samples of each, of what the sample adds to it.
\<close>

theorem generate_vorticity_grid_kernels:
  "(case vadd x1 (vscale t (vsub x2 x1)) of (c0, c1, c2) \<Rightarrow>
      cells (rasterize_sample sz sigma x1 x2 chi t grid) (i, j, k) =
        cells grid (i, j, k)
        + (if neighbourhood sz c0 sigma i \<and> neighbourhood sz c1 sigma j \<and> neighbourhood sz c2 sigma k
           then kernel_value sigma x1 x2 chi (i, j, k) else 0))
   \<and> (neighbourhood sz c sigma i \<longrightarrow> i < sz)
   \<and> (x1 \<noteq> x2 \<longrightarrow>
        (\<exists>d. point_to_line_dist (real i, real j, real k) x1 x2 = Num d
           \<and> kernel_value sigma x1 x2 chi (i, j, k) =
               (if d < 3 * sigma then chi * exp (- d\<^sup>2 / (2 * sigma\<^sup>2)) else 0)))
   \<and> (case generate_vorticity_grid sz S delta_chi sigma (g, h) of (r, g', h') \<Rightarrow>
        r = length h \<and> length h' = Suc (length h) \<and> take (length h) h' = h
        \<and> side (h' ! r) = sz
        \<and> cells (h' ! r) idx =
            (\<Sum>s<S. case drawn_segment sz (0.5 + delta_chi / 2) g s of (a, b, handed) \<Rightarrow>
               (\<Sum>t\<leftarrow>map (\<lambda>m. real m / 9) [0..<10]. sample_contribution sz sigma a b handed t idx)))"
proof (intro conjI impI)
  show "case vadd x1 (vscale t (vsub x2 x1)) of (c0, c1, c2) \<Rightarrow>
      cells (rasterize_sample sz sigma x1 x2 chi t grid) (i, j, k) =
        cells grid (i, j, k)
        + (if neighbourhood sz c0 sigma i \<and> neighbourhood sz c1 sigma j \<and> neighbourhood sz c2 sigma k
           then kernel_value sigma x1 x2 chi (i, j, k) else 0)"
    by (simp add: rasterize_sample_cells sample_contribution_def split: prod.splits)
next
  assume "neighbourhood sz c sigma i"
  then show "i < sz" by (rule neighbourhood_in_grid)
next
  assume "x1 \<noteq> x2"
  then show "\<exists>d. point_to_line_dist (real i, real j, real k) x1 x2 = Num d
           \<and> kernel_value sigma x1 x2 chi (i, j, k) =
               (if d < 3 * sigma then chi * exp (- d\<^sup>2 / (2 * sigma\<^sup>2)) else 0)"
    by (rule kernel_value_nondeg)
next
  obtain r g' h' where run: "generate_vorticity_grid sz S delta_chi sigma (g, h) = (r, g', h')"
    by (cases "generate_vorticity_grid sz S delta_chi sigma (g, h)")
  have linspace: "np_linspace 0 1 10 = map (\<lambda>m. real m / 9) [0..<10]"
    by (simp add: np_linspace_def)
  from generate_vorticity_grid_eq [OF run, of idx]
  show "case generate_vorticity_grid sz S delta_chi sigma (g, h) of (r, g', h') \<Rightarrow>
        r = length h \<and> length h' = Suc (length h) \<and> take (length h) h' = h
        \<and> side (h' ! r) = sz
        \<and> cells (h' ! r) idx =
            (\<Sum>s<S. case drawn_segment sz (0.5 + delta_chi / 2) g s of (a, b, handed) \<Rightarrow>
               (\<Sum>t\<leftarrow>map (\<lambda>m. real m / 9) [0..<10]. sample_contribution sz sigma a b handed t idx))"
    unfolding run segment_contribution_def linspace by auto
qed

theorem generate_vorticity_grid_kernels_witness:
  "neighbourhood 4 0 1 3 \<and> (3 :: nat) < 4
   \<and> ((0, 0, 0) :: vec3) \<noteq> (1, 0, 0)
   \<and> kernel_value 1 (0, 0, 0) (1, 0, 0) 1 (1, 0, 0) = 1
   \<and> cells (rasterize_sample 4 1 (0, 0, 0) (1, 0, 0) 1 0 (zeros 4)) (1, 0, 0) = 1"
proof -
  have nb: "neighbourhood 4 0 1 3" "neighbourhood 4 0 1 0" "neighbourhood 4 0 1 1"
    by (simp_all add: neighbourhood_def py_int_def)
  have ne: "((0, 0, 0) :: vec3) \<noteq> (1, 0, 0)" by simp
  have dist: "point_to_line_dist (1, 0, 0) (0, 0, 0) (1, 0, 0) = Num 0"
    by (simp add: point_to_line_dist_def np_true_divide_def np_clip_def np_linalg_norm_def)
  note inst = generate_vorticity_grid_kernels
    [where ?x1.0 = "(0, 0, 0)" and ?x2.0 = "(1, 0, 0)" and t = 0 and sz = 4 and sigma = 1
       and chi = 1 and grid = "zeros 4" and i = 1 and j = 0 and k = 0 and c = 0]
  from inst nb(1) have lt: "(3 :: nat) < 4" by simp
  from inst ne dist have kv: "kernel_value 1 (0, 0, 0) (1, 0, 0) 1 (1, 0, 0) = 1"
    by auto
  from inst nb kv have "cells (rasterize_sample 4 1 (0, 0, 0) (1, 0, 0) 1 0 (zeros 4)) (1, 0, 0) = 1"
    by (simp add: zeros_def)
  with nb(1) lt ne kv show ?thesis by simp
qed

section \<open>Cycle reducer and cycle driver: facts\<close>

lemma generate_vorticity_grid_closed:
  "generate_vorticity_grid sz S delta_chi sigma (g, h) =
     (length h, g\<lparr>uniform_draws := (\<lambda>n. uniform_draws g (n + 7 * S))\<rparr>,
      h @ [\<lparr>side = sz,
             cells = (\<lambda>idx. \<Sum>s<S. segment_contribution sz sigma
                                      (drawn_segment sz (0.5 + delta_chi / 2) g s) idx)\<rparr>])"
proof -
  obtain filled g1 where loop:
    "fold (\<lambda>_. add_string sz (0.5 + delta_chi / 2) sigma) [0..<S] (zeros sz, g) = (filled, g1)"
    by (cases "fold (\<lambda>_. add_string sz (0.5 + delta_chi / 2) sigma) [0..<S] (zeros sz, g)")
  have g1: "g1 = g\<lparr>uniform_draws := (\<lambda>n. uniform_draws g (n + 7 * S))\<rparr>"
    and sd: "side filled = sz"
    using fold_add_string [OF loop] by (simp_all add: zeros_def)
  have "cells filled idx = (\<Sum>s<S. segment_contribution sz sigma
                                      (drawn_segment sz (0.5 + delta_chi / 2) g s) idx)" for idx
    using fold_add_string [OF loop, of idx] by (simp add: zeros_def)
  then have "cells filled = (\<lambda>idx. \<Sum>s<S. segment_contribution sz sigma
                                      (drawn_segment sz (0.5 + delta_chi / 2) g s) idx)"
    by (rule ext)
  with sd have "filled = \<lparr>side = sz,
             cells = (\<lambda>idx. \<Sum>s<S. segment_contribution sz sigma
                                      (drawn_segment sz (0.5 + delta_chi / 2) g s) idx)\<rparr>"
    by (cases filled) simp
  with loop g1 show ?thesis
    by (simp add: generate_vorticity_grid_def np_zeros_def Let_def)
qed

text \<open>Two runs of the oscillation loop on equal arrays and equal draws end on equal arrays.\<close>

lemma fold_reheating_same:
  assumes "r < length h" "r' < length h'" "h ! r = h' ! r'"
  shows "fst (fold (reheating_step r epsilon omega delta_chi) [0..<n] (g, h)) =
           fst (fold (reheating_step r' epsilon omega delta_chi) [0..<n] (g, h'))
         \<and> snd (fold (reheating_step r epsilon omega delta_chi) [0..<n] (g, h)) ! r =
           snd (fold (reheating_step r' epsilon omega delta_chi) [0..<n] (g, h')) ! r'"
proof (induction n)
  case 0
  with assms show ?case by simp
next
  case (Suc n)
  obtain g1 h1 where a: "fold (reheating_step r epsilon omega delta_chi) [0..<n] (g, h) = (g1, h1)"
    by (cases "fold (reheating_step r epsilon omega delta_chi) [0..<n] (g, h)")
  obtain g2 h2 where b: "fold (reheating_step r' epsilon omega delta_chi) [0..<n] (g, h') = (g2, h2)"
    by (cases "fold (reheating_step r' epsilon omega delta_chi) [0..<n] (g, h')")
  from Suc a b have same: "g1 = g2" "h1 ! r = h2 ! r'" by simp_all
  have len: "length h1 = length h" "length h2 = length h'"
    using fold_reheating_frame [of r epsilon omega delta_chi n g h]
      fold_reheating_frame [of r' epsilon omega delta_chi n g h'] a b by simp_all
  with assms same show ?case
    by (simp add: a b reheating_step_eq)
qed

lemma run_one_cycle_unfold:
  assumes G1: "G1 = \<lparr>side = 20,
             cells = (\<lambda>idx. \<Sum>s<50. segment_contribution 20 1
                                      (drawn_segment 20 (0.5 + (1 / 10 ^ 8) / 2) g s) idx)\<rparr>"
    and G2: "G2 = G1\<lparr>cells := (\<lambda>idx. cells G1 idx + 1 / 10 ^ 8 * normal_draws g 0 idx)\<rparr>"
    and S3: "S3 = stretch_spec G2 4 (1 / (4 powi 3))"
    and g2: "g2 = g\<lparr>uniform_draws := (\<lambda>n. uniform_draws g (n + 7 * 50)),
                    normal_draws := (\<lambda>k. normal_draws g (Suc k))\<rparr>"
    and fin: "fold (reheating_step (Suc (length h)) 0.01 (0.2 * pi) (1 / 10 ^ 8)) [0..<50]
                (g2, h @ [G2, S3]) = (g3, h4)"
  shows "run_one_cycle (g, h) =
     Inr (\<lparr>net_L_pre = np_sum G1, net_L_post_infl = np_sum S3,
           net_L_post_reheat = np_sum (h4 ! Suc (length h)),
           lambda_val = compute_lambda (np_sum (h4 ! Suc (length h)))
             (side (h4 ! Suc (length h)) * side (h4 ! Suc (length h)) * side (h4 ! Suc (length h))),
           v_peak = compute_v_peak (compute_lambda (np_sum (h4 ! Suc (length h)))
             (side (h4 ! Suc (length h)) * side (h4 ! Suc (length h)) * side (h4 ! Suc (length h)))),
           helicity = (if 0 < np_sum (h4 ! Suc (length h)) then ''+'' else ''-'')\<rparr>, g3, h4)"
proof -
  let ?g1 = "g\<lparr>uniform_draws := (\<lambda>n. uniform_draws g (n + 7 * 50))\<rparr>"
  have gen: "generate_vorticity_grid 20 50 (1 / 10 ^ 8) 1 (g, h) = (length h, ?g1, h @ [G1])"
    unfolding G1 by (rule generate_vorticity_grid_closed)
  have noise: "np_random_normal (side G1) ?g1 = (\<lparr>side = 20, cells = normal_draws g 0\<rparr>, g2)"
    by (simp add: np_random_normal_def G1 g2)
  have reset: "iadd (length h) (scalar_mul (1 / 10 ^ 8) \<lparr>side = 20, cells = normal_draws g 0\<rparr>)
                 (h @ [G1]) = h @ [G2]"
    by (simp add: iadd_def scalar_mul_def G2)
  have "inflation_stretch (length h) 4 3 (h @ [G2]) =
          Inr (length (h @ [G2]), (h @ [G2]) @ [stretch_spec ((h @ [G2]) ! length h) (nat 4)
                 (1 / (of_int 4 powi 3))])"
    by (rule inflation_stretch_eq) (simp_all add: G2 G1 float64_overflow_def)
  then have stretch: "inflation_stretch (length h) 4 3 (h @ [G2]) = Inr (Suc (length h), h @ [G2, S3])"
    by (simp add: S3)
  have reheat: "reheating_oscillations (Suc (length h)) 50 0.01 (0.2 * pi) (1 / 10 ^ 8)
                  (g2, h @ [G2, S3]) = (Suc (length h), g3, h4)"
    unfolding reheating_oscillations_def using fin by simp
  have last1: "(h @ [G2, S3]) ! Suc (length h) = S3"
    by (simp add: nth_append)
  show ?thesis
    unfolding run_one_cycle_def Let_def gen prod.case nth_append_length noise reset stretch
      sum.case reheat last1
    by (rule refl)
qed





text \<open>
  A cycle started on the same random source returns the same record and leaves the
  random source in the same state, whatever arrays the heap held before.
\<close>

lemma run_one_cycle_heap_independent:
  "\<exists>res g'. (\<exists>h'. run_one_cycle (g, h1) = Inr (res, g', h'))
     \<and> (\<exists>h'. run_one_cycle (g, h2) = Inr (res, g', h'))"
proof -
  define G1 where "G1 = \<lparr>side = 20,
             cells = (\<lambda>idx. \<Sum>s<50. segment_contribution 20 1
                                      (drawn_segment 20 (0.5 + (1 / 10 ^ 8) / 2) g s) idx)\<rparr>"
  define G2 where "G2 = G1\<lparr>cells := (\<lambda>idx. cells G1 idx + 1 / 10 ^ 8 * normal_draws g 0 idx)\<rparr>"
  define S3 where "S3 = stretch_spec G2 4 (1 / (4 powi 3))"
  define g2 where "g2 = g\<lparr>uniform_draws := (\<lambda>n. uniform_draws g (n + 7 * 50)),
                    normal_draws := (\<lambda>k. normal_draws g (Suc k))\<rparr>"
  let ?run = "\<lambda>h. fold (reheating_step (Suc (length h)) 0.01 (0.2 * pi) (1 / 10 ^ 8)) [0..<50]
       (g2, h @ [G2, S3])"
  obtain g3 h4 where fin1: "?run h1 = (g3, h4)"
    by (cases "?run h1")
  obtain g3' h4' where fin2: "?run h2 = (g3', h4')"
    by (cases "?run h2")
  have "(h1 @ [G2, S3]) ! Suc (length h1) = (h2 @ [G2, S3]) ! Suc (length h2)"
    by (simp add: nth_append)
  from fold_reheating_same [where r = "Suc (length h1)" and h = "h1 @ [G2, S3]"
      and r' = "Suc (length h2)" and h' = "h2 @ [G2, S3]" and n = 50 and g = g2
      and epsilon = "0.01" and omega = "0.2 * pi" and delta_chi = "1 / 10 ^ 8", OF _ _ this]
  have "fst (?run h1) = fst (?run h2) \<and> snd (?run h1) ! Suc (length h1) = snd (?run h2) ! Suc (length h2)"
    by simp
  then have same: "g3' = g3" "h4' ! Suc (length h2) = h4 ! Suc (length h1)"
    unfolding fin1 fin2 by simp_all
  show ?thesis
    unfolding run_one_cycle_unfold [OF G1_def G2_def S3_def g2_def fin1]
      run_one_cycle_unfold [OF G1_def G2_def S3_def g2_def fin2] same
    by blast
qed

end
